theory Spec2Isabelle
  imports Main "HOL-Library.Word" "HOL-Library.Sublist"
begin

section \<open>The agent workflow of agent\_example.py\<close>

text \<open>
  The development embeds the class \<open>Agent\<close> of \<^verbatim>\<open>src/agent_example.py\<close>: the
  methods \<open>_call_llm\<close>, \<open>analyze_task\<close>, \<open>execute_step\<close>, \<open>compile_results\<close> and
  \<open>solve\<close>.
  \<^item> What lies outside the repository is a parameter: the completion service behind
    \<open>self.client.chat.completions.create\<close> is a function of its own state (\<open>client\<close>),
    and the library gives \<open>json.loads\<close> and the conversion \<open>str\<close> of containers and
    floats (\<open>json_loads\<close>, \<open>py_str\<close>).
  \<^item> \<open>print\<close>, the calls of the service and \<open>time.sleep\<close> append to a trace of events,
    so that the order of reports and requests can be stated.
  \<^item> Lists and dictionaries live in a store and are passed by reference, so that a
    statement that a method leaves its arguments alone has content. The service is given
    the new list \<open>messages\<close> alone, whose strings cannot be changed: it has no way to
    the store.
  \<^item> An exception is a value \<open>Inl e\<close>; it ends the run with the world as it is then.
  Strings are sequences of bytes (UTF-8); the text literals of the source are copied
  byte by byte.
\<close>

subsection \<open>Python values, objects and exceptions\<close>

datatype py_error = TypeError | KeyError string | AttributeError | JSONDecodeError
  | OtherError string | SystemError

text \<open>
  \<open>SystemError\<close> stands for the use of an address outside the store, which no run of the
  interpreter produces; \<open>OtherError\<close> for any exception class not named here.
\<close>

datatype json = JNull | JBool bool | JInt int | JFloat "64 word" | JString string
  | JArray "json list" | JObject "(string \<times> json) list"

datatype pyval = PNone | PBool bool | PInt int | PFloat "64 word" | PStr string | PRef nat

datatype pyobj = PList "pyval list" | PDict "(string \<times> pyval) list"

record message =
  role :: string
  content :: string

datatype event = Print string | Create string "message list" | Sleep nat

record 's world =
  remote :: 's
  heap :: "pyobj list"
  trace :: "event list"

type_synonym 's client = "'s \<Rightarrow> string \<Rightarrow> message list \<Rightarrow> (string + string option) \<times> 's"

record 's agent =
  model :: string
  client :: "'s client"

record runtime =
  json_loads :: "string \<Rightarrow> py_error + json"
  py_str :: "pyobj list \<Rightarrow> pyval \<Rightarrow> string"

datatype outcome =
    ErrorOutcome (out_error: string)
  | TaskOutcome (out_query: string) (out_steps: pyval) (out_step_results: pyval)
      (out_final_response: pyval)

subsection \<open>Text\<close>

definition nl :: string where
  "nl = [CHR 0x0A]"

fun str_nat :: "nat \<Rightarrow> string" where
  "str_nat n = (if n < 10 then [''0123456789'' ! n]
                else str_nat (n div 10) @ [''0123456789'' ! (n mod 10)])"

declare str_nat.simps [simp del]

definition str_int :: "int \<Rightarrow> string" where
  "str_int i = (if i < 0 then ''-'' @ str_nat (nat (- i)) else str_nat (nat i))"

definition utf8_cont :: "char \<Rightarrow> bool" where
  "utf8_cont c = ((of_char c :: nat) div 64 = 2)"

function utf8_chars :: "string \<Rightarrow> string list" where
  "utf8_chars [] = []"
| "utf8_chars (c # cs) = (c # takeWhile utf8_cont cs) # utf8_chars (dropWhile utf8_cont cs)"
  by pat_completeness auto
termination
  by (relation "measure length") (auto simp: length_dropWhile_le less_Suc_eq_le)

fun join :: "string \<Rightarrow> string list \<Rightarrow> string" where
  "join sep [] = []"
| "join sep [x] = x"
| "join sep (x # y # ys) = x @ sep @ join sep (y # ys)"

definition format_value :: "runtime \<Rightarrow> pyobj list \<Rightarrow> pyval \<Rightarrow> string" where
  "format_value rt h v =
     (case v of
        PStr s \<Rightarrow> s
      | PNone \<Rightarrow> ''None''
      | PBool b \<Rightarrow> (if b then ''True'' else ''False'')
      | PInt i \<Rightarrow> str_int i
      | _ \<Rightarrow> py_str rt h v)"

definition analyze_system_prompt :: string where
  \<open>analyze_system_prompt = nl @
     ''        You are an AI task planner. Your job is to break down a user's request '' @ nl @
     ''        into a series of clear, discrete steps that can be executed sequentially.'' @ nl @
     ''        '' @ nl @
     ''        Respond with a JSON array of steps, where each step has:'' @ nl @
     ''        1. A "description" field describing what needs to be done'' @ nl @
     ''        2. A "reasoning" field explaining why this step is necessary'' @ nl @
     ''        '' @ nl @
     ''        Format your response as a valid JSON array without any additional text.'' @ nl @
     ''        ''\<close>

definition execute_system_prompt :: string where
  \<open>execute_system_prompt = nl @
     ''        You are an AI assistant focusing on executing a specific task step.'' @ nl @
     ''        Use the provided context and step description to complete this specific step only.'' @ nl @
     ''        Your response should be detailed and directly address the step's requirements.'' @ nl @
     ''        ''\<close>

definition compile_system_prompt :: string where
  \<open>compile_system_prompt = nl @
     ''        You are an AI assistant that compiles information from multiple processing steps '' @ nl @
     ''        into a coherent, unified response. Your goal is to present the information clearly '' @ nl @
     ''        and directly address the user's original query.'' @ nl @
     ''        ''\<close>

text \<open>The pictographs of the progress reports, as the bytes of the source file.\<close>

definition thinking_face :: string where
  "thinking_face = [CHR 0xF0, CHR 0x9F, CHR 0xA4, CHR 0x94]"

definition clipboard :: string where
  "clipboard = [CHR 0xF0, CHR 0x9F, CHR 0x93, CHR 0x8B]"

definition gear :: string where
  "gear = [CHR 0xE2, CHR 0x9A, CHR 0x99, CHR 0xEF, CHR 0xB8, CHR 0x8F]"

definition check_mark :: string where
  "check_mark = [CHR 0xE2, CHR 0x9C, CHR 0x85]"

definition arrows :: string where
  "arrows = [CHR 0xF0, CHR 0x9F, CHR 0x94, CHR 0x84]"

subsection \<open>The store and Python's operations on it\<close>

definition lookup :: "pyobj list \<Rightarrow> nat \<Rightarrow> py_error + pyobj" where
  "lookup h r = (if r < length h then Inr (h ! r) else Inl SystemError)"

definition alloc :: "pyobj \<Rightarrow> pyobj list \<Rightarrow> pyval \<times> pyobj list" where
  "alloc ob h = (PRef (length h), h @ [ob])"

text \<open>\<open>d[k] = v\<close> on a dictionary: a key keeps the place of its first insertion.\<close>

definition dict_setitem :: "(string \<times> pyval) list \<Rightarrow> string \<Rightarrow> pyval \<Rightarrow> (string \<times> pyval) list" where
  "dict_setitem d k v =
     (if k \<in> fst ` set d then map (\<lambda>(k', v'). if k' = k then (k', v) else (k', v')) d
      else d @ [(k, v)])"

definition dict_of_pairs :: "(string \<times> pyval) list \<Rightarrow> (string \<times> pyval) list" where
  "dict_of_pairs ps = foldl (\<lambda>d (k, v). dict_setitem d k v) [] ps"

text \<open>
  \<open>json.loads\<close> returns new objects. The parameter \<open>json_loads\<close> gives the parsed
  document as a tree (the members of an object in the order of the text), and
  \<open>alloc_json\<close> builds the objects the library returns for it: a new list for every
  array and a new dictionary for every object, where the last of several members with
  one key stays.
\<close>

fun alloc_json :: "json \<Rightarrow> pyobj list \<Rightarrow> pyval \<times> pyobj list"
  and alloc_items :: "json list \<Rightarrow> pyobj list \<Rightarrow> pyval list \<times> pyobj list"
  and alloc_members :: "(string \<times> json) list \<Rightarrow> pyobj list \<Rightarrow> (string \<times> pyval) list \<times> pyobj list"
where
  "alloc_json JNull h = (PNone, h)"
| "alloc_json (JBool b) h = (PBool b, h)"
| "alloc_json (JInt i) h = (PInt i, h)"
| "alloc_json (JFloat x) h = (PFloat x, h)"
| "alloc_json (JString s) h = (PStr s, h)"
| "alloc_json (JArray js) h = (case alloc_items js h of (vs, h1) \<Rightarrow> alloc (PList vs) h1)"
| "alloc_json (JObject ms) h =
     (case alloc_members ms h of (kvs, h1) \<Rightarrow> alloc (PDict (dict_of_pairs kvs)) h1)"
| "alloc_items [] h = ([], h)"
| "alloc_items (j # js) h =
     (case alloc_json j h of (v, h1) \<Rightarrow>
        (case alloc_items js h1 of (vs, h2) \<Rightarrow> (v # vs, h2)))"
| "alloc_members [] h = ([], h)"
| "alloc_members ((k, j) # ms) h =
     (case alloc_json j h of (v, h1) \<Rightarrow>
        (case alloc_members ms h1 of (kvs, h2) \<Rightarrow> ((k, v) # kvs, h2)))"

text \<open>\<open>not v\<close> is the negation of \<open>truthy\<close>; a float is zero when all bits but the sign are.\<close>

fun truthy :: "pyobj list \<Rightarrow> pyval \<Rightarrow> py_error + bool" where
  "truthy h PNone = Inr False"
| "truthy h (PBool b) = Inr b"
| "truthy h (PInt i) = Inr (i \<noteq> 0)"
| "truthy h (PFloat x) = Inr (push_bit 1 x \<noteq> 0)"
| "truthy h (PStr s) = Inr (s \<noteq> [])"
| "truthy h (PRef r) =
     (case lookup h r of
        Inl e \<Rightarrow> Inl e
      | Inr (PList xs) \<Rightarrow> Inr (xs \<noteq> [])
      | Inr (PDict d) \<Rightarrow> Inr (d \<noteq> []))"

definition py_len :: "pyobj list \<Rightarrow> pyval \<Rightarrow> py_error + nat" where
  "py_len h v =
     (case v of
        PStr s \<Rightarrow> Inr (length (utf8_chars s))
      | PRef r \<Rightarrow>
          (case lookup h r of
             Inl e \<Rightarrow> Inl e
           | Inr (PList xs) \<Rightarrow> Inr (length xs)
           | Inr (PDict d) \<Rightarrow> Inr (length d))
      | _ \<Rightarrow> Inl TypeError)"

text \<open>
  What an iteration over \<open>v\<close> yields while \<open>v\<close> stays as it is: the elements of a list,
  the keys of a dictionary, the characters of a string. A \<open>for\<close> loop over a list reads
  the list again at every round (\<open>iter_next\<close> at the loop's index), as the list iterator
  does.
\<close>

definition py_iter :: "pyobj list \<Rightarrow> pyval \<Rightarrow> py_error + pyval list" where
  "py_iter h v =
     (case v of
        PStr s \<Rightarrow> Inr (map PStr (utf8_chars s))
      | PRef r \<Rightarrow>
          (case lookup h r of
             Inl e \<Rightarrow> Inl e
           | Inr (PList xs) \<Rightarrow> Inr xs
           | Inr (PDict d) \<Rightarrow> Inr (map (\<lambda>(k, x). PStr k) d))
      | _ \<Rightarrow> Inl TypeError)"

definition iter_next :: "pyobj list \<Rightarrow> pyval \<Rightarrow> nat \<Rightarrow> py_error + pyval option" where
  "iter_next h v i =
     (case py_iter h v of
        Inl e \<Rightarrow> Inl e
      | Inr xs \<Rightarrow> Inr (if i < length xs then Some (xs ! i) else None))"

text \<open>\<open>v[k]\<close> for a string \<open>k\<close>.\<close>

definition getitem :: "pyobj list \<Rightarrow> pyval \<Rightarrow> string \<Rightarrow> py_error + pyval" where
  "getitem h v k =
     (case v of
        PRef r \<Rightarrow>
          (case lookup h r of
             Inl e \<Rightarrow> Inl e
           | Inr (PList xs) \<Rightarrow> Inl TypeError
           | Inr (PDict d) \<Rightarrow> (case map_of d k of None \<Rightarrow> Inl (KeyError k) | Some x \<Rightarrow> Inr x))
      | _ \<Rightarrow> Inl TypeError)"

text \<open>\<open>l.append(x)\<close>: the one operation of the program that writes to an object.\<close>

definition list_append :: "pyobj list \<Rightarrow> pyval \<Rightarrow> pyval \<Rightarrow> py_error + pyobj list" where
  "list_append h l x =
     (case l of
        PRef r \<Rightarrow>
          (case lookup h r of
             Inl e \<Rightarrow> Inl e
           | Inr (PList xs) \<Rightarrow> Inr (h[r := PList (xs @ [x])])
           | Inr (PDict d) \<Rightarrow> Inl AttributeError)
      | _ \<Rightarrow> Inl AttributeError)"

definition print :: "string \<Rightarrow> 's world \<Rightarrow> 's world" where
  "print s w = w\<lparr>trace := trace w @ [Print s]\<rparr>"

definition sleep :: "nat \<Rightarrow> 's world \<Rightarrow> 's world" where
  "sleep n w = w\<lparr>trace := trace w @ [Sleep n]\<rparr>"

subsection \<open>The methods of Agent\<close>

text \<open>
  \<open>_call_llm\<close> (lines 59 to 85). The service answers \<open>Inr c\<close> when
  \<open>response.choices[0].message.content\<close> is \<open>c\<close> (a string, or \<open>None\<close>), and \<open>Inl e\<close>
  when the call or the access raises an exception that prints as \<open>e\<close>.
\<close>

definition call_llm :: "'s agent \<Rightarrow> message list \<Rightarrow> 's world \<Rightarrow> pyval \<times> 's world" where
  "call_llm ag messages w =
     (case client ag (remote w) (model ag) messages of
        (Inr c, s) \<Rightarrow>
          ((case c of None \<Rightarrow> PNone | Some text \<Rightarrow> PStr text),
           w\<lparr>remote := s, trace := trace w @ [Create (model ag) messages]\<rparr>)
      | (Inl e, s) \<Rightarrow>
          (PNone,
           print (''Error calling LLM: '' @ e)
             (w\<lparr>remote := s, trace := trace w @ [Create (model ag) messages]\<rparr>)))"

definition analyze_messages :: "string \<Rightarrow> message list" where
  "analyze_messages user_query =
     [\<lparr>role = ''system'', content = analyze_system_prompt\<rparr>,
      \<lparr>role = ''user'', content = ''Break down this task into steps: '' @ user_query\<rparr>]"

text \<open>
  \<open>analyze_task\<close> (lines 87 to 122). \<open>json.loads\<close> of a value that is not text raises
  \<open>TypeError\<close>; the handler catches \<open>JSONDecodeError\<close> alone.
\<close>

definition analyze_task ::
  "'s agent \<Rightarrow> runtime \<Rightarrow> string \<Rightarrow> 's world \<Rightarrow> (py_error + pyval) \<times> 's world" where
  "analyze_task ag rt user_query w =
     (case call_llm ag (analyze_messages user_query) w of
        (response, w1) \<Rightarrow>
          (case response of
             PStr text \<Rightarrow>
               (case json_loads rt text of
                  Inr j \<Rightarrow>
                    (case alloc_json j (heap w1) of (steps, h) \<Rightarrow> (Inr steps, w1\<lparr>heap := h\<rparr>))
                | Inl JSONDecodeError \<Rightarrow>
                    (case alloc (PList []) (heap w1) of
                       (no_steps, h) \<Rightarrow>
                         (Inr no_steps,
                          (print (''Raw response: '' @ text)
                             (print ''Error: Could not parse response as JSON'' w1))\<lparr>heap := h\<rparr>))
                | Inl e \<Rightarrow> (Inl e, w1))
           | _ \<Rightarrow> (Inl TypeError, w1)))"

definition step_messages :: "runtime \<Rightarrow> pyobj list \<Rightarrow> pyval \<Rightarrow> string \<Rightarrow> py_error + message list" where
  "step_messages rt h step context =
     (case getitem h step ''description'' of
        Inl e \<Rightarrow> Inl e
      | Inr d \<Rightarrow>
          (case getitem h step ''reasoning'' of
             Inl e \<Rightarrow> Inl e
           | Inr r \<Rightarrow>
               Inr [\<lparr>role = ''system'', content = execute_system_prompt\<rparr>,
                    \<lparr>role = ''user'',
                     content = ''Context so far: '' @ context @ nl @ nl @
                       ''Execute this step: '' @ format_value rt h d @ nl @ nl @
                       ''Reasoning: '' @ format_value rt h r\<rparr>]))"

text \<open>\<open>execute_step\<close> (lines 124 to 147).\<close>

definition execute_step ::
  "'s agent \<Rightarrow> runtime \<Rightarrow> pyval \<Rightarrow> string \<Rightarrow> 's world \<Rightarrow> (py_error + pyval) \<times> 's world" where
  "execute_step ag rt step context w =
     (case step_messages rt (heap w) step context of
        Inl e \<Rightarrow> (Inl e, w)
      | Inr messages \<Rightarrow> (case call_llm ag messages w of (res, w1) \<Rightarrow> (Inr res, w1)))"

definition step_texts :: "runtime \<Rightarrow> pyobj list \<Rightarrow> pyval list \<Rightarrow> string list" where
  "step_texts rt h rs =
     map (\<lambda>(i, res). ''Step '' @ str_nat (i + 1) @ '' result: '' @ format_value rt h res)
       (enumerate 0 rs)"

definition compile_messages :: "runtime \<Rightarrow> pyobj list \<Rightarrow> pyval \<Rightarrow> string \<Rightarrow> py_error + message list" where
  "compile_messages rt h steps_results user_query =
     (case py_iter h steps_results of
        Inl e \<Rightarrow> Inl e
      | Inr rs \<Rightarrow>
          Inr [\<lparr>role = ''system'', content = compile_system_prompt\<rparr>,
               \<lparr>role = ''user'',
                content = ''Original query: '' @ user_query @ nl @ nl @
                  ''Results from steps:'' @ nl @ join (nl @ nl) (step_texts rt h rs) @ nl @ nl @
                  ''Please provide a comprehensive, unified response to the original query.''\<rparr>])"

text \<open>
  \<open>compile_results\<close> (lines 149 to 178). The loop of lines 168 to 170 acts on nothing
  but its own new list \<open>step_texts\<close>, so it is the map over what the iteration yields.
\<close>

definition compile_results ::
  "'s agent \<Rightarrow> runtime \<Rightarrow> pyval \<Rightarrow> string \<Rightarrow> 's world \<Rightarrow> (py_error + pyval) \<times> 's world" where
  "compile_results ag rt steps_results user_query w =
     (case compile_messages rt (heap w) steps_results user_query of
        Inl e \<Rightarrow> (Inl e, w)
      | Inr messages \<Rightarrow> (case call_llm ag messages w of (res, w1) \<Rightarrow> (Inr res, w1)))"

text \<open>The loop of lines 198 and 199 of \<open>solve\<close>, from index \<open>i\<close> on.\<close>

function list_steps :: "runtime \<Rightarrow> pyval \<Rightarrow> nat \<Rightarrow> 's world \<Rightarrow> (py_error + unit) \<times> 's world" where
  "list_steps rt steps i w =
     (case iter_next (heap w) steps i of
        Inl e \<Rightarrow> (Inl e, w)
      | Inr None \<Rightarrow> (Inr (), w)
      | Inr (Some step) \<Rightarrow>
          (case getitem (heap w) step ''description'' of
             Inl e \<Rightarrow> (Inl e, w)
           | Inr d \<Rightarrow>
               list_steps rt steps (i + 1)
                 (print (''  '' @ str_nat (i + 1) @ ''. '' @ format_value rt (heap w) d) w)))"
  by pat_completeness auto
termination
proof (relation "measure (\<lambda>(rt, steps, i, w).
    (case py_iter (heap w) steps of Inl e \<Rightarrow> 0 | Inr xs \<Rightarrow> length xs) - i)")
  show "wf (measure (\<lambda>(rt :: runtime, steps, i, w :: 's world).
    (case py_iter (heap w) steps of Inl e \<Rightarrow> 0 | Inr xs \<Rightarrow> length xs) - i))"
    by simp
next
  fix rt :: runtime and steps i and w :: "'s world" and x2 x2a b
  assume "iter_next (heap w) steps i = Inr x2" and "x2 = Some x2a"
  then show "((rt, steps, i + 1,
        print (''  '' @ str_nat (i + 1) @ ''. '' @ format_value rt (heap w) b) w),
       rt, steps, i, w)
      \<in> measure (\<lambda>(rt, steps, i, w).
          (case py_iter (heap w) steps of Inl e \<Rightarrow> 0 | Inr xs \<Rightarrow> length xs) - i)"
    by (auto simp: iter_next_def print_def split: sum.splits if_splits)
qed

declare list_steps.simps [simp del]

text \<open>
  The loop of lines 204 to 211 of \<open>solve\<close>, from index \<open>i\<close> on, with the locals
  \<open>step_results\<close> (a reference) and \<open>context\<close>; it returns the last value of \<open>context\<close>.
  The loop reads \<open>steps\<close> at every round and appends to \<open>step_results\<close>, so it would not
  end if the two were one list: the function is partial, and \<open>None\<close> is a run that does
  not return.
\<close>

partial_function (option) run_steps ::
  "'s agent \<Rightarrow> runtime \<Rightarrow> pyval \<Rightarrow> nat \<Rightarrow> pyval \<Rightarrow> string \<Rightarrow> 's world
     \<Rightarrow> ((py_error + string) \<times> 's world) option" where
  "run_steps ag rt steps i step_results context w =
     (case iter_next (heap w) steps i of
        Inl e \<Rightarrow> Some (Inl e, w)
      | Inr None \<Rightarrow> Some (Inr context, w)
      | Inr (Some step) \<Rightarrow>
          (case getitem (heap w) step ''description'' of
             Inl e \<Rightarrow> Some (Inl e, w)
           | Inr d \<Rightarrow>
               (case execute_step ag rt step context
                       (print (nl @ gear @ '' Executing step '' @ str_nat (i + 1) @ '': '' @
                          format_value rt (heap w) d) w) of
                  (Inl e, w1) \<Rightarrow> Some (Inl e, w1)
                | (Inr result, w1) \<Rightarrow>
                    (case list_append (heap w1) step_results result of
                       Inl e \<Rightarrow> Some (Inl e, w1)
                     | Inr h \<Rightarrow>
                         run_steps ag rt steps (i + 1) step_results
                           (context @ nl @ ''Step '' @ str_nat (i + 1) @ '' result: '' @
                              format_value rt h result)
                           (sleep 1 (print (''  '' @ check_mark @ '' Completed'')
                              (w1\<lparr>heap := h\<rparr>)))))))"

declare run_steps.simps [code]

text \<open>\<open>solve\<close> (lines 180 to 221).\<close>

definition solve ::
  "'s agent \<Rightarrow> runtime \<Rightarrow> string \<Rightarrow> 's world \<Rightarrow> ((py_error + outcome) \<times> 's world) option" where
  "solve ag rt user_query w =
     (case analyze_task ag rt user_query
             (print (thinking_face @ '' Analyzing task: '' @ user_query) w) of
        (Inl e, w1) \<Rightarrow> Some (Inl e, w1)
      | (Inr steps, w1) \<Rightarrow>
          (case truthy (heap w1) steps of
             Inl e \<Rightarrow> Some (Inl e, w1)
           | Inr False \<Rightarrow> Some (Inr (ErrorOutcome ''Could not break down the task into steps''), w1)
           | Inr True \<Rightarrow>
               (case py_len (heap w1) steps of
                  Inl e \<Rightarrow> Some (Inl e, w1)
                | Inr n \<Rightarrow>
                    (case list_steps rt steps 0
                            (print (clipboard @ '' Breaking down into '' @ str_nat n @ '' steps:'') w1) of
                       (Inl e, w2) \<Rightarrow> Some (Inl e, w2)
                     | (Inr u, w2) \<Rightarrow>
                         (case alloc (PList []) (heap w2) of
                            (step_results, h) \<Rightarrow>
                              (case run_steps ag rt steps 0 step_results [] (w2\<lparr>heap := h\<rparr>) of
                                 None \<Rightarrow> None
                               | Some (Inl e, w3) \<Rightarrow> Some (Inl e, w3)
                               | Some (Inr context, w3) \<Rightarrow>
                                   (case compile_results ag rt step_results user_query
                                           (print (nl @ arrows @ '' Compiling final response...'') w3) of
                                      (Inl e, w4) \<Rightarrow> Some (Inl e, w4)
                                    | (Inr final_response, w4) \<Rightarrow>
                                        Some (Inr (TaskOutcome user_query steps step_results
                                                     final_response), w4))))))))"

subsection \<open>The reading of a run\<close>

text \<open>
  The definitions of this part are not taken from the source: they are the terms in
  which the properties are stated, and each is compared with the code by a lemma.
  First, an answer of the service: the content it holds (\<open>None\<close> when the call
  raised), that content as a Python value, what \<open>_call_llm\<close> prints for it, and what an
  f-string makes of a step result.
\<close>

definition of_content :: "string option \<Rightarrow> pyval" where
  "of_content c = (case c of None \<Rightarrow> PNone | Some text \<Rightarrow> PStr text)"

definition reply_content :: "string + string option \<Rightarrow> string option" where
  "reply_content rep = (case rep of Inl e \<Rightarrow> None | Inr c \<Rightarrow> c)"

definition reply_report :: "string + string option \<Rightarrow> event list" where
  "reply_report rep = (case rep of Inl e \<Rightarrow> [Print (''Error calling LLM: '' @ e)] | Inr c \<Rightarrow> [])"

definition result_text :: "string option \<Rightarrow> string" where
  "result_text c = (case c of None \<Rightarrow> ''None'' | Some text \<Rightarrow> text)"

text \<open>
  The record of the specification for the result of step \<open>k\<close>, and the context after
  the steps \<open>i + 1\<close>, \<open>i + 2\<close>, ...: the records in order, each after a line break.
\<close>

definition spec_record :: "nat \<Rightarrow> string option \<Rightarrow> string" where
  "spec_record k c = ''Step '' @ str_nat k @ '' result: '' @ result_text c"

definition spec_context :: "nat \<Rightarrow> string option list \<Rightarrow> string" where
  "spec_context i cs = concat (map (\<lambda>(k, c). nl @ spec_record (k + 1) c) (enumerate i cs))"

text \<open>
  The request of a step whose description \<open>d\<close> and reasoning \<open>r\<close> are texts, the request
  of the compilation for the results \<open>cs\<close>, and the requests among the events of a trace.
\<close>

definition step_request :: "string \<Rightarrow> string \<Rightarrow> string \<Rightarrow> message list" where
  "step_request context d r =
     [\<lparr>role = ''system'', content = execute_system_prompt\<rparr>,
      \<lparr>role = ''user'',
       content = ''Context so far: '' @ context @ nl @ nl @
         ''Execute this step: '' @ d @ nl @ nl @ ''Reasoning: '' @ r\<rparr>]"

definition compile_request :: "string option list \<Rightarrow> string \<Rightarrow> message list" where
  "compile_request cs user_query =
     [\<lparr>role = ''system'', content = compile_system_prompt\<rparr>,
      \<lparr>role = ''user'',
       content = ''Original query: '' @ user_query @ nl @ nl @
         ''Results from steps:'' @ nl @
         join (nl @ nl) (map (\<lambda>(k, c). spec_record (k + 1) c) (enumerate 0 cs)) @ nl @ nl @
         ''Please provide a comprehensive, unified response to the original query.''\<rparr>]"

fun requests :: "event list \<Rightarrow> message list list" where
  "requests [] = []"
| "requests (Create m ms # es) = ms # requests es"
| "requests (Print s # es) = requests es"
| "requests (Sleep n # es) = requests es"

text \<open>
  A value of the store is the step \<open>(d, r)\<close> when it has these two texts as its
  \<open>description\<close> and its \<open>reasoning\<close>.
\<close>

definition is_step :: "pyobj list \<Rightarrow> pyval \<Rightarrow> string \<times> string \<Rightarrow> bool" where
  "is_step h v p =
     (getitem h v ''description'' = Inr (PStr (fst p)) \<and>
      getitem h v ''reasoning'' = Inr (PStr (snd p)))"

text \<open>
  The state Executing of the specification (section 4.1), for a plan of steps with
  text fields: for every step in order, call the service with the context so far,
  append the record of the result to the context and the result to the results. It
  gives the results, the last context, the events and the last state of the service.
\<close>

fun spec_executing ::
  "'s client \<Rightarrow> string \<Rightarrow> (string \<times> string) list \<Rightarrow> nat \<Rightarrow> string \<Rightarrow> 's
     \<Rightarrow> string option list \<times> string \<times> event list \<times> 's" where
  "spec_executing cl m [] i context s = ([], context, [], s)"
| "spec_executing cl m (p # ps) i context s =
     (case cl s m (step_request context (fst p) (snd p)) of
        (rep, s1) \<Rightarrow>
          (case spec_executing cl m ps (i + 1)
                  (context @ nl @ spec_record (i + 1) (reply_content rep)) s1 of
             (cs, context', evs, s2) \<Rightarrow>
               (reply_content rep # cs, context',
                [Print (nl @ gear @ '' Executing step '' @ str_nat (i + 1) @ '': '' @ fst p),
                 Create m (step_request context (fst p) (snd p))] @ reply_report rep @
                [Print (''  '' @ check_mark @ '' Completed''), Sleep 1] @ evs,
                s2)))"

text \<open>
  The member \<open>k\<close> of a parsed object (the last one, when the text has several), the two
  text fields of a parsed step, and the lines that list the steps of a plan.
\<close>

definition member :: "json \<Rightarrow> string \<Rightarrow> json option" where
  "member j k = (case j of JObject ms \<Rightarrow> map_of (rev ms) k | _ \<Rightarrow> None)"

definition step_fields :: "json \<Rightarrow> (string \<times> string) option" where
  "step_fields j =
     (case (member j ''description'', member j ''reasoning'') of
        (Some (JString d), Some (JString r)) \<Rightarrow> Some (d, r)
      | _ \<Rightarrow> None)"

definition listing :: "nat \<Rightarrow> (string \<times> string) list \<Rightarrow> event list" where
  "listing i ps = map (\<lambda>(k, p). Print (''  '' @ str_nat (k + 1) @ ''. '' @ fst p)) (enumerate i ps)"

subsection \<open>Scenarios\<close>

text \<open>
  A service that answers from a script, one answer for each call, and fails when the
  script is used up; the texts and plans of the scenarios of section 8 of the
  specification (the birthday party, the text that is not JSON) and of three more.
\<close>

definition scripted :: "(string + string option) list client" where
  "scripted s m ms = (case s of [] \<Rightarrow> (Inl ''Connection error.'', []) | rep # reps \<Rightarrow> (rep, reps))"

definition party_text :: string where
  \<open>party_text = ''[{"description":"Pick a venue","reasoning":"Needed first"},'' @
     ''{"description":"Send invites","reasoning":"After venue is set"}]''\<close>

definition party_plan :: json where
  "party_plan = JArray
     [JObject [(''description'', JString ''Pick a venue''), (''reasoning'', JString ''Needed first'')],
      JObject [(''description'', JString ''Send invites''),
               (''reasoning'', JString ''After venue is set'')]]"

definition cake_text :: string where
  \<open>cake_text = ''[{"description":"Pick a venue","reasoning":"Needed first"},'' @
     ''{"description":"Send invites","reasoning":"After venue is set"},'' @
     ''{"description":"Order a cake","reasoning":"Last"}]''\<close>

definition cake_plan :: json where
  "cake_plan = JArray
     [JObject [(''description'', JString ''Pick a venue''), (''reasoning'', JString ''Needed first'')],
      JObject [(''description'', JString ''Send invites''),
               (''reasoning'', JString ''After venue is set'')],
      JObject [(''description'', JString ''Order a cake''), (''reasoning'', JString ''Last'')]]"

definition object_text :: string where
  \<open>object_text = ''{"a": 1}''\<close>

definition venue_only_text :: string where
  \<open>venue_only_text = ''[{"description": "Pick a venue"}]''\<close>

text \<open>
  The text \<open>NaN\<close> is not JSON, and \<open>json.loads\<close> parses it all the same: to the float
  that is not a number, here with the bits of the quiet one.
\<close>

definition nan_text :: string where
  "nan_text = ''NaN''"

definition nan_bits :: "64 word" where
  "nan_bits = 0x7FF8000000000000"

text \<open>
  What \<open>json.loads\<close> returns on the texts of the scenarios below; no other text occurs
  in them.
\<close>

definition scenario_loads :: "string \<Rightarrow> py_error + json" where
  "scenario_loads s =
     (if s = party_text then Inr party_plan
      else if s = cake_text then Inr cake_plan
      else if s = object_text then Inr (JObject [(''a'', JInt 1)])
      else if s = venue_only_text
        then Inr (JArray [JObject [(''description'', JString ''Pick a venue'')]])
      else if s = ''not json'' then Inl JSONDecodeError
      else if s = nan_text then Inr (JFloat nan_bits)
      else Inl (OtherError ''not a text of the scenarios''))"

definition scenario_runtime :: runtime where
  "scenario_runtime = \<lparr>json_loads = scenario_loads, py_str = (\<lambda>h v. ''?'')\<rparr>"

definition gpt4 :: "(string + string option) list agent" where
  "gpt4 = \<lparr>model = ''openai/gpt-4'', client = scripted\<rparr>"

definition start :: "(string + string option) list \<Rightarrow> (string + string option) list world" where
  "start reps = \<lparr>remote = reps, heap = [], trace = []\<rparr>"

text \<open>
  The birthday party: the answers of the service, and the world in which the run ends.
  Then the worlds in which the runs on a parsed object and on the text \<open>NaN\<close> end.
\<close>

definition party_replies :: "(string + string option) list" where
  "party_replies =
     [Inr (Some party_text), Inr (Some ''Venue booked''), Inr (Some ''Invites sent''),
      Inr (Some ''All set'')]"

definition party_end :: "(string + string option) list world" where
  "party_end =
     \<lparr>remote = [],
      heap =
        [PDict [(''description'', PStr ''Pick a venue''), (''reasoning'', PStr ''Needed first'')],
         PDict [(''description'', PStr ''Send invites''), (''reasoning'', PStr ''After venue is set'')],
         PList [PRef 0, PRef 1],
         PList [PStr ''Venue booked'', PStr ''Invites sent'']],
      trace =
        [Print (thinking_face @ '' Analyzing task: Plan a birthday party''),
         Create ''openai/gpt-4'' (analyze_messages ''Plan a birthday party''),
         Print (clipboard @ '' Breaking down into 2 steps:''),
         Print ''  1. Pick a venue'',
         Print ''  2. Send invites'',
         Print (nl @ gear @ '' Executing step 1: Pick a venue''),
         Create ''openai/gpt-4'' (step_request [] ''Pick a venue'' ''Needed first''),
         Print (''  '' @ check_mark @ '' Completed''),
         Sleep 1,
         Print (nl @ gear @ '' Executing step 2: Send invites''),
         Create ''openai/gpt-4''
           (step_request (nl @ ''Step 1 result: Venue booked'') ''Send invites''
              ''After venue is set''),
         Print (''  '' @ check_mark @ '' Completed''),
         Sleep 1,
         Print (nl @ arrows @ '' Compiling final response...''),
         Create ''openai/gpt-4''
           (compile_request [Some ''Venue booked'', Some ''Invites sent'']
              ''Plan a birthday party'')]\<rparr>"

definition object_end :: "(string + string option) list world" where
  "object_end =
     \<lparr>remote = [],
      heap = [PDict [(''a'', PInt 1)]],
      trace =
        [Print (thinking_face @ '' Analyzing task: Plan a birthday party''),
         Create ''openai/gpt-4'' (analyze_messages ''Plan a birthday party''),
         Print (clipboard @ '' Breaking down into 1 steps:'')]\<rparr>"

definition nan_end :: "(string + string option) list world" where
  "nan_end =
     \<lparr>remote = [],
      heap = [],
      trace =
        [Print (thinking_face @ '' Analyzing task: Plan a birthday party''),
         Create ''openai/gpt-4'' (analyze_messages ''Plan a birthday party'')]\<rparr>"

section \<open>Properties\<close>

subsection \<open>Single calls\<close>

lemma heap_print [simp]: "heap (print s w) = heap w"
  and remote_print [simp]: "remote (print s w) = remote w"
  and trace_print [simp]: "trace (print s w) = trace w @ [Print s]"
  by (simp_all add: print_def)

lemma heap_sleep [simp]: "heap (sleep n w) = heap w"
  and remote_sleep [simp]: "remote (sleep n w) = remote w"
  and trace_sleep [simp]: "trace (sleep n w) = trace w @ [Sleep n]"
  by (simp_all add: sleep_def)

lemma call_llm_reply:
  assumes "client ag (remote w) (model ag) ms = (rep, s)"
  shows "call_llm ag ms w =
    (of_content (reply_content rep),
     w\<lparr>remote := s, trace := trace w @ Create (model ag) ms # reply_report rep\<rparr>)"
  using assms
  by (cases rep) (simp_all add: call_llm_def of_content_def reply_content_def reply_report_def print_def)

lemma format_of_content [simp]: "format_value rt h (of_content c) = result_text c"
  by (cases c) (simp_all add: format_value_def of_content_def result_text_def)

lemma execute_step_Inr:
  assumes "execute_step ag rt step context w = (Inr res, w')"
  shows "\<exists>c. res = of_content c \<and> heap w' = heap w"
proof -
  from assms obtain ms where ms: "step_messages rt (heap w) step context = Inr ms"
    and call: "call_llm ag ms w = (res, w')"
    by (auto simp: execute_step_def split: sum.splits prod.splits)
  obtain rep s where "client ag (remote w) (model ag) ms = (rep, s)"
    by (cases "client ag (remote w) (model ag) ms")
  from call_llm_reply [OF this] call show ?thesis by auto
qed

lemma execute_step_heap: "heap (snd (execute_step ag rt step context w)) = heap w"
proof (cases "step_messages rt (heap w) step context")
  case (Inl e)
  then show ?thesis by (simp add: execute_step_def)
next
  case (Inr ms)
  obtain rep s where "client ag (remote w) (model ag) ms = (rep, s)"
    by (cases "client ag (remote w) (model ag) ms")
  from call_llm_reply [OF this] Inr show ?thesis by (simp add: execute_step_def)
qed

lemma compile_results_heap: "heap (snd (compile_results ag rt sr q w)) = heap w"
proof (cases "compile_messages rt (heap w) sr q")
  case (Inl e)
  then show ?thesis by (simp add: compile_results_def)
next
  case (Inr ms)
  obtain rep s where "client ag (remote w) (model ag) ms = (rep, s)"
    by (cases "client ag (remote w) (model ag) ms")
  from call_llm_reply [OF this] Inr show ?thesis by (simp add: compile_results_def)
qed

lemma getitem_append:
  "getitem h v k = Inr x \<Longrightarrow> getitem (h @ ext) v k = Inr x"
  by (auto simp: getitem_def lookup_def nth_append split: pyval.splits if_splits)

lemma is_step_append: "is_step h v p \<Longrightarrow> is_step (h @ ext) v p"
  by (simp add: is_step_def getitem_append)

lemma step_messages_text:
  "is_step h v p \<Longrightarrow> step_messages rt h v ctx = Inr (step_request ctx (fst p) (snd p))"
  by (simp add: is_step_def step_messages_def step_request_def format_value_def)

lemma execute_step_text:
  assumes "is_step (heap w) v p"
    and "client ag (remote w) (model ag) (step_request ctx (fst p) (snd p)) = (rep, s)"
  shows "execute_step ag rt v ctx w =
    (Inr (of_content (reply_content rep)),
     w\<lparr>remote := s,
       trace := trace w @ Create (model ag) (step_request ctx (fst p) (snd p)) # reply_report rep\<rparr>)"
  using assms by (simp add: execute_step_def step_messages_text call_llm_reply)

lemma step_texts_contents:
  "step_texts rt h (map of_content cs) = map (\<lambda>(k, c). spec_record (k + 1) c) (enumerate 0 cs)"
  by (simp add: step_texts_def enumerate_eq_zip zip_map2 spec_record_def split_def)

lemma compile_results_contents:
  assumes "py_iter (heap w) sr = Inr (map of_content cs)"
    and "client ag (remote w) (model ag) (compile_request cs q) = (rep, s)"
  shows "compile_results ag rt sr q w =
    (Inr (of_content (reply_content rep)),
     w\<lparr>remote := s, trace := trace w @ Create (model ag) (compile_request cs q) # reply_report rep\<rparr>)"
  using assms
  by (simp add: compile_results_def compile_messages_def step_texts_contents compile_request_def
      call_llm_reply)

lemma py_iter_last: "py_iter (h @ [PList rs]) (PRef (length h)) = Inr rs"
  by (simp add: py_iter_def lookup_def)

lemma numbered_entries:
  "map (\<lambda>(k, c). spec_record (k + 1) c) (enumerate 0 cs) =
   map (\<lambda>k. ''Step '' @ str_nat k @ '' result: '' @ result_text (cs ! (k - 1))) [1..<length cs + 1]"
  by (rule nth_equalityI) (simp_all add: nth_enumerate_eq spec_record_def del: upt_Suc)

lemma list_append_fresh:
  "list_append (h0 @ [PList rs]) (PRef (length h0)) x = Inr (h0 @ [PList (rs @ [x])])"
  by (simp add: list_append_def lookup_def)

lemma iter_next_list:
  assumes "a < length h" "h ! a = PList xs"
  shows "iter_next h (PRef a) i = Inr (if i < length xs then Some (xs ! i) else None)"
  using assms by (simp add: iter_next_def py_iter_def lookup_def)

subsection \<open>The reading of a run\<close>

lemma spec_context_Nil [simp]: "spec_context i [] = []"
  by (simp add: spec_context_def)

lemma spec_context_Cons [simp]:
  "spec_context i (c # cs) = nl @ spec_record (i + 1) c @ spec_context (Suc i) cs"
  by (simp add: spec_context_def enumerate_simps)

lemma requests_append [simp]: "requests (es @ fs) = requests es @ requests fs"
  by (induction es rule: requests.induct) simp_all

lemma requests_reply_report [simp]: "requests (reply_report rep) = []"
  by (simp add: reply_report_def split: sum.splits)

lemma requests_listing [simp]: "requests (listing i ps) = []"
  unfolding listing_def by (induction ps arbitrary: i) (simp_all add: enumerate_simps split_def)

lemma spec_executing_run:
  "spec_executing cl m ps i ctx s = (cs, ctx', evs, s') \<Longrightarrow>
    length cs = length ps \<and> ctx' = ctx @ spec_context i cs \<and>
    requests evs =
      map (\<lambda>k. step_request (ctx @ spec_context i (take k cs)) (fst (ps ! k)) (snd (ps ! k)))
        [0..<length ps]"
proof (induction ps arbitrary: i ctx s cs ctx' evs s')
  case Nil
  then show ?case by simp
next
  case (Cons p ps)
  obtain rep s1 where cl: "cl s m (step_request ctx (fst p) (snd p)) = (rep, s1)"
    by (cases "cl s m (step_request ctx (fst p) (snd p))")
  let ?ctx = "ctx @ nl @ spec_record (i + 1) (reply_content rep)"
  obtain cs1 evs1 where sp: "spec_executing cl m ps (i + 1) ?ctx s1 = (cs1, ctx', evs1, s')"
    and cs: "cs = reply_content rep # cs1"
    and evs: "evs = [Print (nl @ gear @ '' Executing step '' @ str_nat (i + 1) @ '': '' @ fst p),
                 Create m (step_request ctx (fst p) (snd p))] @ reply_report rep @
                [Print (''  '' @ check_mark @ '' Completed''), Sleep 1] @ evs1"
    using Cons.prems cl by (auto split: prod.splits)
  from Cons.IH [OF sp] have len: "length cs1 = length ps"
    and ctx': "ctx' = ?ctx @ spec_context (i + 1) cs1"
    and req: "requests evs1 =
      map (\<lambda>k. step_request (?ctx @ spec_context (i + 1) (take k cs1)) (fst (ps ! k)) (snd (ps ! k)))
        [0..<length ps]"
    by simp_all
  have "requests evs = step_request ctx (fst p) (snd p) # requests evs1"
    by (simp add: evs)
  also have "\<dots> = map (\<lambda>k. step_request (ctx @ spec_context i (take k cs))
      (fst ((p # ps) ! k)) (snd ((p # ps) ! k))) [0..<length (p # ps)]"
  proof -
    have "[0..<length (p # ps)] = 0 # map Suc [0..<length ps]"
      by (simp add: upt_conv_Cons map_Suc_upt del: upt_Suc)
    then show ?thesis by (simp add: req cs comp_def del: upt_Suc)
  qed
  finally show ?case using len ctx' by (simp add: cs)
qed

subsection \<open>The two loops of solve\<close>

lemma run_steps_rounds:
  assumes a: "a < length h0" "h0 ! a = PList xs"
  shows "heap w = h0 @ [PList rs0] \<Longrightarrow>
    \<exists>r. run_steps ag rt (PRef a) i (PRef (length h0)) ctx w = Some r \<and>
      (case r of
         (Inl e, w') \<Rightarrow> True
       | (Inr ctx', w') \<Rightarrow>
           (\<exists>cs. length cs = length xs - i \<and>
              heap w' = h0 @ [PList (rs0 @ map of_content cs)] \<and>
              ctx' = ctx @ spec_context i cs \<and>
              (\<forall>k\<le>length cs. \<exists>wk.
                 run_steps ag rt (PRef a) (i + k) (PRef (length h0))
                   (ctx @ spec_context i (take k cs)) wk = Some (Inr ctx', w'))))"
proof (induction "length xs - i" arbitrary: i ctx w rs0)
  case 0
  then have "iter_next (heap w) (PRef a) i = Inr None"
    using a by (simp add: iter_next_list nth_append)
  then have "run_steps ag rt (PRef a) i (PRef (length h0)) ctx w = Some (Inr ctx, w)"
    by (subst run_steps.simps) simp
  then show ?case using 0 by auto
next
  case (Suc n)
  then have i: "i < length xs" by simp
  have nxt: "iter_next (heap w) (PRef a) i = Inr (Some (xs ! i))"
    using a i Suc.prems by (simp add: iter_next_list nth_append)
  show ?case
  proof (cases "getitem (heap w) (xs ! i) ''description''")
    case (Inl e)
    then show ?thesis using nxt by (subst run_steps.simps) simp
  next
    case (Inr d)
    let ?w0 = "print (nl @ gear @ '' Executing step '' @ str_nat (i + 1) @ '': '' @
                          format_value rt (heap w) d) w"
    obtain r1 w1 where ex: "execute_step ag rt (xs ! i) ctx ?w0 = (r1, w1)"
      by (cases "execute_step ag rt (xs ! i) ctx ?w0")
    show ?thesis
    proof (cases r1)
      case (Inl e)
      then show ?thesis using nxt Inr ex by (subst run_steps.simps) simp
    next
      case res: (Inr res)
      from execute_step_Inr [OF ex [unfolded res]] obtain c
        where c: "res = of_content c" and h1: "heap w1 = heap w" by auto
      let ?h = "h0 @ [PList ((rs0 @ [of_content c]))]"
      let ?w2 = "sleep 1 (print (''  '' @ check_mark @ '' Completed'') (w1\<lparr>heap := ?h\<rparr>))"
      let ?ctx = "ctx @ nl @ ''Step '' @ str_nat (i + 1) @ '' result: '' @ format_value rt ?h res"
      have app: "list_append (heap w1) (PRef (length h0)) res = Inr ?h"
        using h1 Suc.prems c by (simp add: list_append_fresh)
      have unf: "run_steps ag rt (PRef a) i (PRef (length h0)) ctx w =
          run_steps ag rt (PRef a) (i + 1) (PRef (length h0)) ?ctx ?w2"
        using nxt Inr ex res app by (subst run_steps.simps) simp
      have n: "n = length xs - (i + 1)" using Suc.hyps(2) by simp
      have hw2: "heap ?w2 = h0 @ [PList (rs0 @ [of_content c])]" by simp
      have "\<exists>r. run_steps ag rt (PRef a) (i + 1) (PRef (length h0)) ?ctx ?w2 = Some r \<and>
        (case r of
         (Inl e, w') \<Rightarrow> True
       | (Inr ctx', w') \<Rightarrow>
           (\<exists>cs. length cs = length xs - (i + 1) \<and>
              heap w' = h0 @ [PList ((rs0 @ [of_content c]) @ map of_content cs)] \<and>
              ctx' = ?ctx @ spec_context (i + 1) cs \<and>
              (\<forall>k\<le>length cs. \<exists>wk.
                 run_steps ag rt (PRef a) (i + 1 + k) (PRef (length h0))
                   (?ctx @ spec_context (i + 1) (take k cs)) wk = Some (Inr ctx', w'))))"
        by (rule Suc.hyps(1) [OF n hw2])
      then obtain r where r: "run_steps ag rt (PRef a) (i + 1) (PRef (length h0)) ?ctx ?w2 = Some r"
        and post: "(case r of
         (Inl e, w') \<Rightarrow> True
       | (Inr ctx', w') \<Rightarrow>
           (\<exists>cs. length cs = length xs - (i + 1) \<and>
              heap w' = h0 @ [PList ((rs0 @ [of_content c]) @ map of_content cs)] \<and>
              ctx' = ?ctx @ spec_context (i + 1) cs \<and>
              (\<forall>k\<le>length cs. \<exists>wk.
                 run_steps ag rt (PRef a) (i + 1 + k) (PRef (length h0))
                   (?ctx @ spec_context (i + 1) (take k cs)) wk = Some (Inr ctx', w'))))"
        by blast
      show ?thesis
      proof (cases r)
        case (Pair r' w')
        show ?thesis
        proof (cases r')
          case (Inl e)
          then show ?thesis using unf r Pair by simp
        next
          case (Inr ctx')
          with post Pair obtain cs where cs: "length cs = length xs - (i + 1)"
            "heap w' = h0 @ [PList ((rs0 @ [of_content c]) @ map of_content cs)]"
            "ctx' = ?ctx @ spec_context (i + 1) cs"
            and rounds: "\<And>k. k \<le> length cs \<Longrightarrow> \<exists>wk.
                 run_steps ag rt (PRef a) (i + 1 + k) (PRef (length h0))
                   (?ctx @ spec_context (i + 1) (take k cs)) wk = Some (Inr ctx', w')"
            by auto
          have whole: "run_steps ag rt (PRef a) i (PRef (length h0)) ctx w = Some (Inr ctx', w')"
            using unf r Pair Inr by simp
          have "length (c # cs) = length xs - i" using cs(1) i by simp
          moreover have "heap w' = h0 @ [PList (rs0 @ map of_content (c # cs))]"
            using cs(2) by simp
          moreover have "ctx' = ctx @ spec_context i (c # cs)"
            using cs(3) c by (simp add: spec_record_def)
          moreover have "\<exists>wk. run_steps ag rt (PRef a) (i + k) (PRef (length h0))
                   (ctx @ spec_context i (take k (c # cs))) wk = Some (Inr ctx', w')"
            if k: "k \<le> length (c # cs)" for k
          proof (cases k)
            case 0
            then show ?thesis using whole by auto
          next
            case (Suc k')
            with k have "k' \<le> length cs" by simp
            from rounds [OF this] show ?thesis
              using Suc c by (simp add: spec_record_def)
          qed
          ultimately have "\<exists>cs'. length cs' = length xs - i \<and>
              heap w' = h0 @ [PList (rs0 @ map of_content cs')] \<and>
              ctx' = ctx @ spec_context i cs' \<and>
              (\<forall>k\<le>length cs'. \<exists>wk.
                 run_steps ag rt (PRef a) (i + k) (PRef (length h0))
                   (ctx @ spec_context i (take k cs')) wk = Some (Inr ctx', w'))"
            by blast
          then show ?thesis using whole Pair Inr by simp
        qed
      qed
    qed
  qed
qed

lemma run_steps_plan:
  assumes a: "a < length h0" "h0 ! a = PList xs"
  shows "list_all2 (is_step h0) (drop i xs) ps \<Longrightarrow> heap w = h0 @ [PList rs0] \<Longrightarrow>
    spec_executing (client ag) (model ag) ps i ctx (remote w) = (cs, ctx', evs, s') \<Longrightarrow>
    run_steps ag rt (PRef a) i (PRef (length h0)) ctx w =
      Some (Inr ctx', w\<lparr>remote := s', heap := h0 @ [PList (rs0 @ map of_content cs)],
                        trace := trace w @ evs\<rparr>)"
proof (induction ps arbitrary: i ctx w rs0 cs ctx' evs s')
  case Nil
  then have "length xs \<le> i" by simp
  then have "iter_next (heap w) (PRef a) i = Inr None"
    using a Nil.prems(2) by (simp add: iter_next_list nth_append)
  moreover have "w\<lparr>remote := remote w, heap := h0 @ [PList rs0], trace := trace w\<rparr> = w"
    using Nil.prems(2) by (cases w) simp
  ultimately show ?case using Nil.prems
    by (subst run_steps.simps) simp
next
  case (Cons p ps)
  from Cons.prems(1) obtain v rest where dr: "drop i xs = v # rest"
    and v: "is_step h0 v p" and rest: "list_all2 (is_step h0) rest ps"
    by (auto simp: list_all2_Cons2)
  from dr have i: "i < length xs" by (cases "i < length xs") auto
  from dr i have xi: "xs ! i = v" and dri: "drop (Suc i) xs = rest"
    by (simp_all add: Cons_nth_drop_Suc [symmetric])
  have nxt: "iter_next (heap w) (PRef a) i = Inr (Some v)"
    using a i xi Cons.prems(2) by (simp add: iter_next_list nth_append)
  have vw: "is_step (heap w) v p"
    using v Cons.prems(2) by (simp add: is_step_append)
  then have d: "getitem (heap w) v ''description'' = Inr (PStr (fst p))"
    by (simp add: is_step_def)
  let ?req = "step_request ctx (fst p) (snd p)"
  obtain rep s1 where cl: "client ag (remote w) (model ag) ?req = (rep, s1)"
    by (cases "client ag (remote w) (model ag) ?req")
  let ?ctx = "ctx @ nl @ spec_record (i + 1) (reply_content rep)"
  obtain cs1 evs1 where sp: "spec_executing (client ag) (model ag) ps (i + 1) ?ctx s1 = (cs1, ctx', evs1, s')"
    and cs: "cs = reply_content rep # cs1"
    and evs: "evs = [Print (nl @ gear @ '' Executing step '' @ str_nat (i + 1) @ '': '' @ fst p),
                 Create (model ag) ?req] @ reply_report rep @
                [Print (''  '' @ check_mark @ '' Completed''), Sleep 1] @ evs1"
    using Cons.prems(3) cl by (auto split: prod.splits)
  let ?w0 = "print (nl @ gear @ '' Executing step '' @ str_nat (i + 1) @ '': '' @
                          format_value rt (heap w) (PStr (fst p))) w"
  let ?w1 = "?w0\<lparr>remote := s1, trace := trace ?w0 @ Create (model ag) ?req # reply_report rep\<rparr>"
  have ex: "execute_step ag rt v ctx ?w0 = (Inr (of_content (reply_content rep)), ?w1)"
    by (rule execute_step_text) (simp_all add: vw cl)
  let ?h = "h0 @ [PList (rs0 @ [of_content (reply_content rep)])]"
  have app: "list_append (heap ?w1) (PRef (length h0)) (of_content (reply_content rep)) = Inr ?h"
    using Cons.prems(2) by (simp add: list_append_fresh)
  let ?w2 = "sleep 1 (print (''  '' @ check_mark @ '' Completed'') (?w1\<lparr>heap := ?h\<rparr>))"
  have unf: "run_steps ag rt (PRef a) i (PRef (length h0)) ctx w =
      run_steps ag rt (PRef a) (i + 1) (PRef (length h0)) ?ctx ?w2"
    using nxt d ex app by (subst run_steps.simps) (simp add: spec_record_def)
  have "run_steps ag rt (PRef a) (i + 1) (PRef (length h0)) ?ctx ?w2 =
      Some (Inr ctx', ?w2\<lparr>remote := s',
        heap := h0 @ [PList ((rs0 @ [of_content (reply_content rep)]) @ map of_content cs1)],
        trace := trace ?w2 @ evs1\<rparr>)"
    by (rule Cons.IH) (use rest dri sp in simp_all)
  then show ?case unfolding unf
    by (simp add: cs evs print_def sleep_def format_value_def)
qed

lemma list_steps_heap: "heap (snd (list_steps rt steps i w)) = heap w"
proof (induction rt steps i w rule: list_steps.induct)
  case (1 rt steps i w)
  show ?case
  proof (cases "iter_next (heap w) steps i")
    case (Inl e)
    then show ?thesis by (subst list_steps.simps) simp
  next
    case (Inr nx)
    show ?thesis
    proof (cases nx)
      case None
      then show ?thesis using Inr by (subst list_steps.simps) simp
    next
      case (Some step)
      show ?thesis
      proof (cases "getitem (heap w) step ''description''")
        case (Inl e)
        then show ?thesis using Inr Some by (subst list_steps.simps) simp
      next
        case d: (Inr d)
        from "1.IH" [OF Inr Some d] show ?thesis
          using Inr Some d by (subst list_steps.simps) simp
      qed
    qed
  qed
qed

lemma utf8_chars_empty [simp]: "utf8_chars s = [] \<longleftrightarrow> s = []"
  by (cases s) simp_all

lemma list_steps_list:
  assumes "list_steps rt steps 0 w = (Inr u, w2)" and "truthy (heap w) steps = Inr True"
  shows "\<exists>a xs. steps = PRef a \<and> a < length (heap w) \<and> heap w ! a = PList xs \<and> xs \<noteq> []"
proof (cases steps)
  case (PStr s)
  with assms(2) have "s \<noteq> []" by simp
  then obtain c cs where "utf8_chars s = c # cs" by (cases "utf8_chars s") simp_all
  then have "list_steps rt steps 0 w = (Inl TypeError, w)"
    using PStr by (subst list_steps.simps) (simp add: iter_next_def py_iter_def getitem_def)
  with assms(1) show ?thesis by simp
next
  case (PRef a)
  show ?thesis
  proof (cases "lookup (heap w) a")
    case (Inl e)
    with assms(2) PRef show ?thesis by simp
  next
    case (Inr ob)
    then have a: "a < length (heap w)" "heap w ! a = ob"
      by (auto simp: lookup_def split: if_splits)
    show ?thesis
    proof (cases ob)
      case (PList xs)
      with assms(2) PRef Inr a show ?thesis by simp
    next
      case (PDict d)
      with assms(2) PRef Inr obtain kv d' where "d = kv # d'" by (cases d) simp_all
      then have "list_steps rt steps 0 w = (Inl TypeError, w)"
        using PRef PDict Inr
        by (subst list_steps.simps) (simp add: iter_next_def py_iter_def getitem_def split_def)
      with assms(1) show ?thesis by simp
    qed
  qed
qed (use assms in \<open>simp_all add: list_steps.simps [of _ _ 0] iter_next_def py_iter_def\<close>)

lemma list_steps_plan:
  assumes a: "a < length (heap w)" "heap w ! a = PList xs"
  shows "list_all2 (is_step (heap w)) (drop i xs) ps \<Longrightarrow>
    list_steps rt (PRef a) i w = (Inr (), w\<lparr>trace := trace w @ listing i ps\<rparr>)"
  using a
proof (induction ps arbitrary: i w)
  case Nil
  then have "length xs \<le> i" by simp
  then have "iter_next (heap w) (PRef a) i = Inr None"
    using Nil.prems by (simp add: iter_next_list)
  then show ?case by (subst list_steps.simps) (simp add: listing_def)
next
  case (Cons p ps)
  from Cons.prems(1) obtain v rest where dr: "drop i xs = v # rest"
    and v: "is_step (heap w) v p" and rest: "list_all2 (is_step (heap w)) rest ps"
    by (auto simp: list_all2_Cons2)
  from dr have i: "i < length xs" by (cases "i < length xs") auto
  from dr i have xi: "xs ! i = v" and dri: "drop (Suc i) xs = rest"
    by (simp_all add: Cons_nth_drop_Suc [symmetric])
  have nxt: "iter_next (heap w) (PRef a) i = Inr (Some v)"
    using Cons.prems i xi by (simp add: iter_next_list)
  have d: "getitem (heap w) v ''description'' = Inr (PStr (fst p))"
    using v by (simp add: is_step_def)
  let ?w1 = "print (''  '' @ str_nat (i + 1) @ ''. '' @ fst p) w"
  have "list_steps rt (PRef a) (Suc i) ?w1 = (Inr (), ?w1\<lparr>trace := trace ?w1 @ listing (Suc i) ps\<rparr>)"
    by (rule Cons.IH) (use rest dri Cons.prems in simp_all)
  then show ?case using nxt d
    by (subst list_steps.simps) (simp add: listing_def format_value_def enumerate_simps print_def)
qed

subsection \<open>The objects of a parsed plan\<close>

lemma alloc_extends:
  "alloc_json j h = (v, h') \<Longrightarrow> \<exists>ext. h' = h @ ext"
  "alloc_items js h = (vs, h') \<Longrightarrow> \<exists>ext. h' = h @ ext"
  "alloc_members ms h = (kvs, h') \<Longrightarrow> \<exists>ext. h' = h @ ext"
proof (induction j h and js h and ms h arbitrary: v h' and vs h' and kvs h'
    rule: alloc_json_alloc_items_alloc_members.induct)
  case (6 js h)
  then show ?case by (fastforce simp: alloc_def split: prod.splits)
next
  case (7 ms h)
  then show ?case by (fastforce simp: alloc_def split: prod.splits)
next
  case (9 j js h)
  then show ?case by (fastforce split: prod.splits)
next
  case (11 k j ms h)
  then show ?case by (fastforce split: prod.splits)
qed auto

lemma map_of_dict_setitem: "map_of (dict_setitem d k v) = (map_of d)(k \<mapsto> v)"
proof (cases "k \<in> fst ` set d")
  case False
  then have "map_of d k = None" by (simp add: map_of_eq_None_iff)
  then show ?thesis using False
    by (auto simp: dict_setitem_def fun_eq_iff map_add_def split: option.splits)
next
  case True
  have "map_of (map (\<lambda>(k', v'). if k' = k then (k', v) else (k', v')) d) x =
      (if x = k then (if k \<in> fst ` set d then Some v else None) else map_of d x)" for x
    by (induction d) (auto simp: rev_image_eqI)
  then show ?thesis using True by (auto simp: dict_setitem_def fun_eq_iff)
qed

lemma map_of_foldl_setitem:
  "map_of (foldl (\<lambda>d (k, v). dict_setitem d k v) d kvs) = map_of d ++ map_of (rev kvs)"
proof (induction kvs arbitrary: d)
  case Nil
  then show ?case by simp
next
  case (Cons kv kvs)
  obtain k v where kv: "kv = (k, v)" by (cases kv)
  show ?case
    by (simp add: kv Cons.IH map_of_dict_setitem fun_eq_iff map_add_def split: option.splits)
qed

lemma map_of_dict_of_pairs: "map_of (dict_of_pairs kvs) = map_of (rev kvs)"
  by (simp add: dict_of_pairs_def map_of_foldl_setitem)

lemma alloc_members_keys: "alloc_members ms h = (kvs, h') \<Longrightarrow> map fst kvs = map fst ms"
proof (induction ms arbitrary: h kvs h')
  case Nil
  then show ?case by simp
next
  case (Cons m ms)
  then show ?case by (cases m) (auto split: prod.splits)
qed

lemma alloc_members_text:
  "alloc_members ms h = (kvs, h') \<Longrightarrow> map_of (rev ms) k = Some (JString s) \<Longrightarrow>
     map_of (rev kvs) k = Some (PStr s)"
proof (induction ms arbitrary: h kvs h')
  case Nil
  then show ?case by simp
next
  case (Cons m ms)
  obtain k' j where m: "m = (k', j)" by (cases m)
  obtain v h1 where j: "alloc_json j h = (v, h1)" by (cases "alloc_json j h")
  obtain kvs1 h2 where ms: "alloc_members ms h1 = (kvs1, h2)" by (cases "alloc_members ms h1")
  have kvs: "kvs = (k', v) # kvs1" using Cons.prems(1) m j ms by simp
  show ?case
  proof (cases "map_of (rev ms) k")
    case None
    then have "k \<notin> fst ` set ms" by (simp add: map_of_eq_None_iff)
    moreover have "map fst kvs1 = map fst ms" using ms
    proof (induction ms arbitrary: h1 kvs1 h2)
      case Nil then show ?case by simp
    next
      case (Cons a ms) then show ?case by (cases a) (auto split: prod.splits)
    qed
    then have "fst ` set kvs1 = fst ` set ms" by (metis list.set_map)
    ultimately have "map_of (rev kvs1) k = None" by (simp add: map_of_eq_None_iff)
    moreover from None Cons.prems(2) m have "k = k'" "j = JString s"
      by (auto simp: map_add_def split: if_splits)
    ultimately show ?thesis using j kvs by (auto simp: map_add_def)
  next
    case (Some x)
    with Cons.prems(2) m have "map_of (rev ms) k = Some (JString s)" by (simp add: map_add_def)
    from Cons.IH [OF ms this] show ?thesis using kvs by (simp add: map_add_def)
  qed
qed

lemma alloc_members_absent:
  assumes "alloc_members ms h = (kvs, h')" and "map_of (rev ms) k = None"
  shows "map_of (rev kvs) k = None"
proof -
  have "fst ` set kvs = fst ` set ms"
    using alloc_members_keys [OF assms(1)] by (metis list.set_map)
  then show ?thesis using assms(2) by (simp add: map_of_eq_None_iff)
qed

lemma alloc_json_step:
  assumes "step_fields j = Some p" and "alloc_json j h = (v, h')"
  shows "is_step h' v p"
proof -
  from assms(1) obtain ms where j: "j = JObject ms"
    by (cases j) (simp_all add: step_fields_def member_def)
  from assms(1) j have d: "map_of (rev ms) ''description'' = Some (JString (fst p))"
    and r: "map_of (rev ms) ''reasoning'' = Some (JString (snd p))"
    by (auto simp: step_fields_def member_def split: option.splits json.splits)
  obtain kvs h1 where ms: "alloc_members ms h = (kvs, h1)" by (cases "alloc_members ms h")
  with assms(2) j have v: "v = PRef (length h1)" and h': "h' = h1 @ [PDict (dict_of_pairs kvs)]"
    by (simp_all add: alloc_def)
  show ?thesis
    using alloc_members_text [OF ms d] alloc_members_text [OF ms r]
    by (simp add: is_step_def getitem_def lookup_def v h' map_of_dict_of_pairs)
qed

lemma alloc_items_steps:
  "alloc_items js h = (vs, h') \<Longrightarrow> map step_fields js = map Some ps \<Longrightarrow>
     list_all2 (is_step h') vs ps"
proof (induction js arbitrary: h vs h' ps)
  case Nil
  then show ?case by simp
next
  case (Cons j js)
  from Cons.prems(2) obtain p ps' where ps: "ps = p # ps'" and p: "step_fields j = Some p"
    and ps': "map step_fields js = map Some ps'"
    by (cases ps) auto
  obtain v h1 where j: "alloc_json j h = (v, h1)" by (cases "alloc_json j h")
  obtain vs1 h2 where js: "alloc_items js h1 = (vs1, h2)" by (cases "alloc_items js h1")
  from Cons.prems(1) j js have vs: "vs = v # vs1" and h': "h' = h2" by simp_all
  from alloc_extends(2) [OF js] obtain ext where ext: "h2 = h1 @ ext" by blast
  have "is_step h2 v p" using alloc_json_step [OF p j] ext by (simp add: is_step_append)
  moreover have "list_all2 (is_step h2) vs1 ps'" by (rule Cons.IH [OF js ps'])
  ultimately show ?case by (simp add: vs h' ps)
qed

lemma plan_store:
  assumes "map step_fields js = map Some ps"
  shows "\<exists>h1 xs. alloc_json (JArray js) h = (PRef (length h1), h1 @ [PList xs]) \<and>
    list_all2 (is_step (h1 @ [PList xs])) xs ps"
proof -
  obtain vs h1 where js: "alloc_items js h = (vs, h1)" by (cases "alloc_items js h")
  from alloc_items_steps [OF js assms] have "list_all2 (is_step (h1 @ [PList vs])) vs ps"
    by (auto intro: list_all2_mono is_step_append)
  then show ?thesis using js by (auto simp: alloc_def)
qed

lemma analyze_task_plan:
  assumes "client ag (remote w) (model ag) (analyze_messages q) = (Inr (Some text), s1)"
    and "json_loads rt text = Inr j"
  shows "analyze_task ag rt q w =
    (Inr (fst (alloc_json j (heap w))),
     w\<lparr>remote := s1, heap := snd (alloc_json j (heap w)),
       trace := trace w @ [Create (model ag) (analyze_messages q)]\<rparr>)"
  using assms
  by (simp add: analyze_task_def call_llm_reply of_content_def reply_content_def reply_report_def
      split: prod.splits)

subsection \<open>A whole run\<close>

lemma solve_plan:
  assumes plan: "client ag (remote w) (model ag) (analyze_messages q) = (Inr (Some text), s1)"
    and json: "json_loads rt text = Inr (JArray js)"
    and fields: "map step_fields js = map Some ps"
    and ne: "ps \<noteq> []"
    and run: "spec_executing (client ag) (model ag) ps 0 [] s1 = (cs, ctx, evs, s2)"
    and fin: "client ag s2 (model ag) (compile_request cs q) = (rep, s3)"
  shows "solve ag rt q w =
    Some (Inr (TaskOutcome q (fst (alloc_json (JArray js) (heap w)))
                 (PRef (length (snd (alloc_json (JArray js) (heap w)))))
                 (of_content (reply_content rep))),
          w\<lparr>remote := s3,
            heap := snd (alloc_json (JArray js) (heap w)) @ [PList (map of_content cs)],
            trace := trace w @
              [Print (thinking_face @ '' Analyzing task: '' @ q),
               Create (model ag) (analyze_messages q),
               Print (clipboard @ '' Breaking down into '' @ str_nat (length ps) @ '' steps:'')] @
              listing 0 ps @ evs @
              [Print (nl @ arrows @ '' Compiling final response...''),
               Create (model ag) (compile_request cs q)] @ reply_report rep\<rparr>)"
proof -
  from plan_store [OF fields, of "heap w"] obtain h1 xs
    where al: "alloc_json (JArray js) (heap w) = (PRef (length h1), h1 @ [PList xs])"
      and xs: "list_all2 (is_step (h1 @ [PList xs])) xs ps"
    by blast
  let ?h = "h1 @ [PList xs]"
  let ?w0 = "print (thinking_face @ '' Analyzing task: '' @ q) w"
  let ?w1 = "?w0\<lparr>remote := s1, heap := ?h,
       trace := trace ?w0 @ [Create (model ag) (analyze_messages q)]\<rparr>"
  have an: "analyze_task ag rt q ?w0 = (Inr (PRef (length h1)), ?w1)"
    using analyze_task_plan [of ag "?w0" q "text" s1 rt "JArray js"] plan json al by simp
  have len: "length xs = length ps" using xs by (rule list_all2_lengthD)
  with ne have xne: "xs \<noteq> []" by auto
  have tr: "truthy (heap ?w1) (PRef (length h1)) = Inr True"
    using xne by (simp add: lookup_def)
  have pl: "py_len (heap ?w1) (PRef (length h1)) = Inr (length ps)"
    using len by (simp add: py_len_def lookup_def)
  let ?w2 = "print (clipboard @ '' Breaking down into '' @ str_nat (length ps) @ '' steps:'') ?w1"
  let ?w3 = "?w2\<lparr>trace := trace ?w2 @ listing 0 ps\<rparr>"
  have ls: "list_steps rt (PRef (length h1)) 0 ?w2 = (Inr (), ?w3)"
    by (rule list_steps_plan [where xs = xs]) (simp_all add: xs)
  let ?w4 = "?w3\<lparr>heap := ?h @ [PList []]\<rparr>"
  let ?w5 = "?w4\<lparr>remote := s2, heap := ?h @ [PList ([] @ map of_content cs)],
                        trace := trace ?w4 @ evs\<rparr>"
  have rs: "run_steps ag rt (PRef (length h1)) 0 (PRef (length ?h)) [] ?w4 = Some (Inr ctx, ?w5)"
    by (rule run_steps_plan [where xs = xs and ps = ps]) (simp_all add: xs run)
  let ?w6 = "print (nl @ arrows @ '' Compiling final response...'') ?w5"
  have cr: "compile_results ag rt (PRef (length ?h)) q ?w6 =
    (Inr (of_content (reply_content rep)),
     ?w6\<lparr>remote := s3, trace := trace ?w6 @ Create (model ag) (compile_request cs q) # reply_report rep\<rparr>)"
    by (rule compile_results_contents)
      (use py_iter_last [of "?h" "map of_content cs"] fin in simp_all)
  have "alloc (PList []) (heap ?w3) = (PRef (length ?h), ?h @ [PList []])"
    by (simp add: alloc_def)
  then show ?thesis
    unfolding solve_def al
    by (simp only: an tr pl ls rs cr prod.case sum.case bool.case option.case)
      (simp add: print_def)
qed

lemma solve_outcomeD:
  assumes "solve ag rt user_query w = Some (Inr (TaskOutcome q st sr fr), w')"
  shows "\<exists>w1 n u w2 ctx w3.
      analyze_task ag rt user_query
        (print (thinking_face @ '' Analyzing task: '' @ user_query) w) = (Inr st, w1) \<and>
      truthy (heap w1) st = Inr True \<and>
      list_steps rt st 0
        (print (clipboard @ '' Breaking down into '' @ str_nat n @ '' steps:'') w1) = (Inr u, w2) \<and>
      sr = PRef (length (heap w2)) \<and>
      run_steps ag rt st 0 sr [] (w2\<lparr>heap := heap w2 @ [PList []]\<rparr>) = Some (Inr ctx, w3) \<and>
      compile_results ag rt sr user_query
        (print (nl @ arrows @ '' Compiling final response...'') w3) = (Inr fr, w')"
proof -
  let ?w0 = "print (thinking_face @ '' Analyzing task: '' @ user_query) w"
  obtain ra w1 where an: "analyze_task ag rt user_query ?w0 = (ra, w1)"
    by (cases "analyze_task ag rt user_query ?w0")
  show ?thesis
  proof (cases ra)
    case (Inl e)
    with assms an show ?thesis by (simp add: solve_def)
  next
    case steps: (Inr steps)
    show ?thesis
    proof (cases "truthy (heap w1) steps")
      case (Inl e)
      with assms an steps show ?thesis by (simp add: solve_def)
    next
      case tr: (Inr b)
      show ?thesis
      proof (cases b)
        case False
        with assms an steps tr show ?thesis by (simp add: solve_def)
      next
        case True
        show ?thesis
        proof (cases "py_len (heap w1) steps")
          case (Inl e)
          with assms an steps tr True show ?thesis by (simp add: solve_def)
        next
          case n: (Inr n)
          let ?w1 = "print (clipboard @ '' Breaking down into '' @ str_nat n @ '' steps:'') w1"
          obtain rl w2 where ls: "list_steps rt steps 0 ?w1 = (rl, w2)"
            by (cases "list_steps rt steps 0 ?w1")
          show ?thesis
          proof (cases rl)
            case (Inl e)
            with assms an steps tr True n ls show ?thesis by (simp add: solve_def)
          next
            case u: (Inr u)
            let ?sr = "PRef (length (heap w2))"
            let ?w2 = "w2\<lparr>heap := heap w2 @ [PList []]\<rparr>"
            show ?thesis
            proof (cases "run_steps ag rt steps 0 ?sr [] ?w2")
              case None
              with assms an steps tr True n ls u show ?thesis by (simp add: solve_def alloc_def)
            next
              case (Some r3)
              obtain rr w3 where r3: "r3 = (rr, w3)" by (cases r3)
              show ?thesis
              proof (cases rr)
                case (Inl e)
                with assms an steps tr True n ls u Some r3 show ?thesis
                  by (simp add: solve_def alloc_def)
              next
                case ctx: (Inr ctx)
                let ?w3 = "print (nl @ arrows @ '' Compiling final response...'') w3"
                obtain rc w4 where cr: "compile_results ag rt ?sr user_query ?w3 = (rc, w4)"
                  by (cases "compile_results ag rt ?sr user_query ?w3")
                show ?thesis
                proof (cases rc)
                  case (Inl e)
                  with assms an steps tr True n ls u Some r3 ctx cr show ?thesis
                    by (simp add: solve_def alloc_def)
                next
                  case (Inr final)
                  with assms an steps tr True n ls u Some r3 ctx cr
                  have eq: "steps = st" "?sr = sr" "final = fr" "w4 = w'"
                    by (simp_all add: solve_def alloc_def)
                  show ?thesis
                    by (rule exI [of _ w1], rule exI [of _ n], rule exI [of _ u],
                        rule exI [of _ w2], rule exI [of _ ctx], rule exI [of _ w3])
                      (use an steps tr True ls u Some r3 ctx cr Inr eq in simp)
                qed
              qed
            qed
          qed
        qed
      qed
    qed
  qed
qed

text \<open>
  \<open>solve\<close> returns on every input: the list of the steps and the new list of the results
  are two objects, so the loop of the steps ends.
\<close>

lemma solve_returns: "\<exists>r. solve ag rt user_query w = Some r"
proof -
  let ?w0 = "print (thinking_face @ '' Analyzing task: '' @ user_query) w"
  obtain ra w1 where an: "analyze_task ag rt user_query ?w0 = (ra, w1)"
    by (cases "analyze_task ag rt user_query ?w0")
  show ?thesis
  proof (cases ra)
    case (Inl e)
    with an show ?thesis by (simp add: solve_def)
  next
    case steps: (Inr steps)
    show ?thesis
    proof (cases "truthy (heap w1) steps")
      case (Inl e)
      with an steps show ?thesis by (simp add: solve_def)
    next
      case tr: (Inr b)
      show ?thesis
      proof (cases b)
        case False
        with an steps tr show ?thesis by (simp add: solve_def)
      next
        case True
        show ?thesis
        proof (cases "py_len (heap w1) steps")
          case (Inl e)
          with an steps tr True show ?thesis by (simp add: solve_def)
        next
          case n: (Inr n)
          let ?w1 = "print (clipboard @ '' Breaking down into '' @ str_nat n @ '' steps:'') w1"
          obtain rl w2 where ls: "list_steps rt steps 0 ?w1 = (rl, w2)"
            by (cases "list_steps rt steps 0 ?w1")
          show ?thesis
          proof (cases rl)
            case (Inl e)
            with an steps tr True n ls show ?thesis by (simp add: solve_def)
          next
            case u: (Inr u)
            have "truthy (heap ?w1) steps = Inr True" using tr True by simp
            from list_steps_list [OF ls [unfolded u] this] obtain a xs
              where st: "steps = PRef a" and a: "a < length (heap w1)" "heap w1 ! a = PList xs"
              by auto
            have h2: "heap w2 = heap w1"
              using list_steps_heap [of rt steps 0 ?w1] ls by simp
            have a2: "a < length (heap w2)" "heap w2 ! a = PList xs" using a h2 by simp_all
            let ?sr = "PRef (length (heap w2))"
            let ?w2 = "w2\<lparr>heap := heap w2 @ [PList []]\<rparr>"
            have "heap ?w2 = heap w2 @ [PList []]" by simp
            from run_steps_rounds [OF a2 this, of ag rt 0 "[]"] st
            obtain r3 where rs: "run_steps ag rt steps 0 ?sr [] ?w2 = Some r3"
              by auto
            obtain rr w3 where r3: "r3 = (rr, w3)" by (cases r3)
            show ?thesis
            proof (cases rr)
              case (Inl e)
              with an steps tr True n ls u rs r3 show ?thesis
                by (simp add: solve_def alloc_def)
            next
              case ctx: (Inr ctx)
              let ?w3 = "print (nl @ arrows @ '' Compiling final response...'') w3"
              obtain rc w4 where cr: "compile_results ag rt ?sr user_query ?w3 = (rc, w4)"
                by (cases "compile_results ag rt ?sr user_query ?w3")
              from an steps tr True n ls u rs r3 ctx cr show ?thesis
                by (cases rc) (simp_all add: solve_def alloc_def)
            qed
          qed
        qed
      qed
    qed
  qed
qed

lemma party_run:
  "solve gpt4 scenario_runtime ''Plan a birthday party'' (start party_replies) =
     Some (Inr (TaskOutcome ''Plan a birthday party'' (PRef 2) (PRef 3) (PStr ''All set'')),
           party_end)"
  using solve_plan [of gpt4 "start party_replies"
      "''Plan a birthday party''" party_text
      "[Inr (Some ''Venue booked''), Inr (Some ''Invites sent''), Inr (Some ''All set'')]"
      scenario_runtime
      "[JObject [(''description'', JString ''Pick a venue''), (''reasoning'', JString ''Needed first'')],
        JObject [(''description'', JString ''Send invites''),
                 (''reasoning'', JString ''After venue is set'')]]"
      "[(''Pick a venue'', ''Needed first''), (''Send invites'', ''After venue is set'')]"
      "fst (spec_executing scripted ''openai/gpt-4''
         [(''Pick a venue'', ''Needed first''), (''Send invites'', ''After venue is set'')] 0 []
         [Inr (Some ''Venue booked''), Inr (Some ''Invites sent''), Inr (Some ''All set'')])"
      "fst (snd (spec_executing scripted ''openai/gpt-4''
         [(''Pick a venue'', ''Needed first''), (''Send invites'', ''After venue is set'')] 0 []
         [Inr (Some ''Venue booked''), Inr (Some ''Invites sent''), Inr (Some ''All set'')]))"
      "fst (snd (snd (spec_executing scripted ''openai/gpt-4''
         [(''Pick a venue'', ''Needed first''), (''Send invites'', ''After venue is set'')] 0 []
         [Inr (Some ''Venue booked''), Inr (Some ''Invites sent''), Inr (Some ''All set'')])))"
      "[Inr (Some ''All set'')]" "Inr (Some ''All set'')" "[]"]
  by (simp add: gpt4_def scripted_def start_def party_replies_def party_end_def
      scenario_runtime_def scenario_loads_def
      party_plan_def step_fields_def member_def reply_content_def reply_report_def of_content_def
      spec_record_def result_text_def str_nat.simps alloc_def dict_of_pairs_def dict_setitem_def
      listing_def enumerate_simps)

subsection \<open>The claims\<close>

text \<open>
  C1. When \<open>solve\<close> returns the full outcome, the list of steps and the list of step
  results in the returned store have one length \<open>n \<ge> 1\<close>, and the loop of the steps ran
  from the empty context to the context that is, for \<open>k\<close> from 1 to \<open>n\<close> in order, a line
  break followed by the record \<open>Step k result: \<close> and the \<open>k\<close>-th result. At the round
  \<open>k\<close> of the loop the context is the same text for the first \<open>k\<close> results: records are
  appended, none is taken away or changed.
\<close>

theorem C1_results_and_context:
  assumes "solve ag rt user_query w = Some (Inr (TaskOutcome q st sr fr), w')"
  shows "\<exists>cs w2. cs \<noteq> [] \<and>
    py_len (heap w') st = Inr (length cs) \<and>
    py_len (heap w') sr = Inr (length cs) \<and>
    py_iter (heap w') sr = Inr (map of_content cs) \<and>
    (\<forall>k\<le>length cs. \<exists>wk.
       run_steps ag rt st k sr (spec_context 0 (take k cs)) wk =
         Some (Inr (spec_context 0 cs), w2))"
proof -
  from solve_outcomeD [OF assms] obtain w1 n u w2 ctx w3
    where tr: "truthy (heap w1) st = Inr True"
      and ls: "list_steps rt st 0
                 (print (clipboard @ '' Breaking down into '' @ str_nat n @ '' steps:'') w1) =
               (Inr u, w2)"
      and sr: "sr = PRef (length (heap w2))"
      and rs: "run_steps ag rt st 0 sr [] (w2\<lparr>heap := heap w2 @ [PList []]\<rparr>) =
               Some (Inr ctx, w3)"
      and cr: "compile_results ag rt sr user_query
                 (print (nl @ arrows @ '' Compiling final response...'') w3) = (Inr fr, w')"
    by blast
  let ?w1 = "print (clipboard @ '' Breaking down into '' @ str_nat n @ '' steps:'') w1"
  have "truthy (heap ?w1) st = Inr True" using tr by simp
  from list_steps_list [OF ls this] obtain a xs
    where st: "st = PRef a" and a: "a < length (heap w1)" "heap w1 ! a = PList xs"
      and xs: "xs \<noteq> []"
    by auto
  have h2: "heap w2 = heap w1"
    using list_steps_heap [of rt st 0 ?w1] ls by simp
  have a2: "a < length (heap w2)" "heap w2 ! a = PList xs" using a h2 by simp_all
  have "heap (w2\<lparr>heap := heap w2 @ [PList []]\<rparr>) = heap w2 @ [PList []]" by simp
  from run_steps_rounds [OF a2 this, of ag rt 0 "[]"] rs st sr
  obtain cs where cs: "length cs = length xs"
    and h3: "heap w3 = heap w2 @ [PList (map of_content cs)]"
    and ctx: "ctx = spec_context 0 cs"
    and rounds: "\<forall>k\<le>length cs. \<exists>wk.
       run_steps ag rt st k sr (spec_context 0 (take k cs)) wk = Some (Inr ctx, w3)"
    by auto
  have h': "heap w' = heap w3"
    using compile_results_heap [of ag rt sr user_query
        "print (nl @ arrows @ '' Compiling final response...'') w3"] cr
    by simp
  have "cs \<noteq> []" using cs xs by auto
  moreover have "py_len (heap w') st = Inr (length cs)"
    using a2 cs by (simp add: h' h3 st py_len_def lookup_def nth_append)
  moreover have "py_len (heap w') sr = Inr (length cs)"
    by (simp add: h' h3 sr py_len_def lookup_def)
  moreover have "py_iter (heap w') sr = Inr (map of_content cs)"
    by (simp add: h' h3 sr py_iter_last)
  ultimately show ?thesis using rounds ctx by blast
qed

theorem C1_results_and_context_witness:
  "solve gpt4 scenario_runtime ''Plan a birthday party'' (start party_replies) =
     Some (Inr (TaskOutcome ''Plan a birthday party'' (PRef 2) (PRef 3) (PStr ''All set'')),
           party_end) \<and>
   (\<exists>cs w2. cs \<noteq> [] \<and>
      py_len (heap party_end) (PRef 2) = Inr (length cs) \<and>
      py_len (heap party_end) (PRef 3) = Inr (length cs) \<and>
      py_iter (heap party_end) (PRef 3) = Inr (map of_content cs) \<and>
      (\<forall>k\<le>length cs. \<exists>wk.
         run_steps gpt4 scenario_runtime (PRef 2) k (PRef 3) (spec_context 0 (take k cs)) wk =
           Some (Inr (spec_context 0 cs), w2)))"
  using C1_results_and_context [OF party_run] party_run by blast

text \<open>
  C2, for every text that is not JSON, fails at the text \<open>NaN\<close>: \<open>json.loads\<close> returns a
  float for it, \<open>analyze_task\<close> returns that float and no empty list, the float is not
  zero, and \<open>solve\<close> ends with the \<open>TypeError\<close> of \<open>len(steps)\<close> (line 197) and returns no
  outcome.
\<close>

theorem C2_nan_counterexample:
  "analyze_task gpt4 scenario_runtime ''Plan a birthday party'' (start [Inr (Some nan_text)]) =
     (Inr (PFloat nan_bits),
      \<lparr>remote = [], heap = [],
       trace = [Create ''openai/gpt-4'' (analyze_messages ''Plan a birthday party'')]\<rparr>) \<and>
   truthy (heap nan_end) (PFloat nan_bits) = Inr True \<and>
   py_len (heap nan_end) (PFloat nan_bits) = Inl TypeError \<and>
   solve gpt4 scenario_runtime ''Plan a birthday party'' (start [Inr (Some nan_text)]) =
     Some (Inl TypeError, nan_end)"
proof -
  have nz: "nan_bits * 2 \<noteq> 0"
    by (simp add: nan_bits_def)
  have loads: "scenario_loads nan_text = Inr (JFloat nan_bits)"
    by (simp add: scenario_loads_def party_text_def cake_text_def object_text_def
        venue_only_text_def nan_text_def)
  have an: "analyze_task gpt4 scenario_runtime ''Plan a birthday party'' w =
      (Inr (PFloat nan_bits),
       w\<lparr>remote := [], trace := trace w @
         [Create ''openai/gpt-4'' (analyze_messages ''Plan a birthday party'')]\<rparr>)"
    if "remote w = [Inr (Some nan_text)]" for w
    using that
    by (simp add: analyze_task_def call_llm_def gpt4_def scripted_def scenario_runtime_def loads)
  show ?thesis
    by (simp add: an solve_def start_def nz py_len_def print_def nan_end_def)
qed

text \<open>
  C2, for the texts on which \<open>json.loads\<close> raises \<open>JSONDecodeError\<close>: \<open>analyze_task\<close>
  prints the parse error, then the raw text, and returns a new empty list; \<open>solve\<close>
  returns the outcome that holds the error message alone. The trace of \<open>solve\<close> has the
  one request of the plan: no step is executed and nothing is compiled.
\<close>

theorem C2_plan_not_json:
  assumes "client ag (remote w) (model ag) (analyze_messages user_query) = (Inr (Some text), s)"
    and "json_loads rt text = Inl JSONDecodeError"
  shows "analyze_task ag rt user_query w =
      (Inr (PRef (length (heap w))),
       w\<lparr>remote := s, heap := heap w @ [PList []],
         trace := trace w @
           [Create (model ag) (analyze_messages user_query),
            Print ''Error: Could not parse response as JSON'',
            Print (''Raw response: '' @ text)]\<rparr>) \<and>
    solve ag rt user_query w =
      Some (Inr (ErrorOutcome ''Could not break down the task into steps''),
        w\<lparr>remote := s, heap := heap w @ [PList []],
          trace := trace w @
            [Print (thinking_face @ '' Analyzing task: '' @ user_query),
             Create (model ag) (analyze_messages user_query),
             Print ''Error: Could not parse response as JSON'',
             Print (''Raw response: '' @ text)]\<rparr>)"
proof -
  have an: "analyze_task ag rt user_query w' =
      (Inr (PRef (length (heap w'))),
       w'\<lparr>remote := s, heap := heap w' @ [PList []],
         trace := trace w' @
           [Create (model ag) (analyze_messages user_query),
            Print ''Error: Could not parse response as JSON'',
            Print (''Raw response: '' @ text)]\<rparr>)"
    if "remote w' = remote w" for w' :: "'a world"
    using assms that call_llm_reply [of ag w' "analyze_messages user_query" "Inr (Some text)" s]
    by (simp add: analyze_task_def of_content_def reply_content_def reply_report_def alloc_def
        print_def)
  show ?thesis
    by (simp add: an solve_def lookup_def print_def)
qed

theorem C2_plan_not_json_witness:
  "client gpt4 (remote (start [Inr (Some ''not json'')])) (model gpt4)
     (analyze_messages ''Plan a birthday party'') = (Inr (Some ''not json''), []) \<and>
   json_loads scenario_runtime ''not json'' = Inl JSONDecodeError \<and>
   solve gpt4 scenario_runtime ''Plan a birthday party'' (start [Inr (Some ''not json'')]) =
     Some (Inr (ErrorOutcome ''Could not break down the task into steps''),
      \<lparr>remote = [], heap = [PList []],
       trace = [Print (thinking_face @ '' Analyzing task: Plan a birthday party''),
                Create ''openai/gpt-4'' (analyze_messages ''Plan a birthday party''),
                Print ''Error: Could not parse response as JSON'',
                Print ''Raw response: not json'']\<rparr>)"
  using C2_plan_not_json [of gpt4 "start [Inr (Some ''not json'')]" "''Plan a birthday party''"
      "''not json''" "[]" scenario_runtime]
  by (simp add: gpt4_def scripted_def start_def scenario_runtime_def scenario_loads_def
      party_text_def cake_text_def object_text_def venue_only_text_def)

text \<open>
  C3. When the text returned for the plan parses to an array of objects that each have
  a text \<open>description\<close> and a text \<open>reasoning\<close>, \<open>analyze_task\<close> returns a list with one
  element for every object of the array, in order, and the \<open>description\<close> and the
  \<open>reasoning\<close> of each element are the texts of the parsed object.
\<close>

theorem C3_plan_preserved:
  assumes "client ag (remote w) (model ag) (analyze_messages user_query) = (Inr (Some text), s)"
    and "json_loads rt text = Inr (JArray js)"
    and "map step_fields js = map Some ps"
  shows "\<exists>v xs w'. analyze_task ag rt user_query w = (Inr v, w') \<and>
    py_len (heap w') v = Inr (length js) \<and>
    py_iter (heap w') v = Inr xs \<and>
    list_all2 (is_step (heap w')) xs ps"
proof -
  from plan_store [OF assms(3), of "heap w"] obtain h1 xs
    where al: "alloc_json (JArray js) (heap w) = (PRef (length h1), h1 @ [PList xs])"
      and xs: "list_all2 (is_step (h1 @ [PList xs])) xs ps"
    by blast
  have "length xs = length ps" using xs by (rule list_all2_lengthD)
  moreover have "length js = length ps" using assms(3) by (rule map_eq_imp_length_eq)
  ultimately have len: "length xs = length js" by simp
  show ?thesis
    unfolding analyze_task_plan [OF assms(1,2)] al
    using xs len by (simp add: py_len_def py_iter_def lookup_def)
qed

theorem C3_plan_preserved_witness:
  "client gpt4 (remote (start [Inr (Some party_text)])) (model gpt4)
     (analyze_messages ''Plan a birthday party'') = (Inr (Some party_text), []) \<and>
   json_loads scenario_runtime party_text =
     Inr (JArray
       [JObject [(''description'', JString ''Pick a venue''), (''reasoning'', JString ''Needed first'')],
        JObject [(''description'', JString ''Send invites''),
                 (''reasoning'', JString ''After venue is set'')]]) \<and>
   (\<exists>v xs w'. analyze_task gpt4 scenario_runtime ''Plan a birthday party''
        (start [Inr (Some party_text)]) = (Inr v, w') \<and>
      py_len (heap w') v = Inr 2 \<and>
      py_iter (heap w') v = Inr xs \<and>
      list_all2 (is_step (heap w')) xs
        [(''Pick a venue'', ''Needed first''), (''Send invites'', ''After venue is set'')])"
  using C3_plan_preserved [of gpt4 "start [Inr (Some party_text)]" "''Plan a birthday party''"
      party_text "[]" scenario_runtime
      "[JObject [(''description'', JString ''Pick a venue''), (''reasoning'', JString ''Needed first'')],
        JObject [(''description'', JString ''Send invites''),
                 (''reasoning'', JString ''After venue is set'')]]"
      "[(''Pick a venue'', ''Needed first''), (''Send invites'', ''After venue is set'')]"]
  by (simp add: gpt4_def scripted_def start_def scenario_runtime_def scenario_loads_def
      party_plan_def step_fields_def member_def numeral_2_eq_2)

text \<open>
  C4. In a plan of at least two steps with text fields, let the service answer the
  request of step 1 with a text \<open>t1\<close> and raise on the request of step 2. Then \<open>solve\<close>
  still returns the full outcome; the step results start with \<open>t1\<close> and \<open>None\<close>; the
  request of every later step carries a context with the record of the absent result
  (\<open>Step 2 result: None\<close>); and the compilation is requested with all the entries, the
  absent one among them.
\<close>

theorem C4_second_step_raises:
  assumes "client ag (remote w) (model ag) (analyze_messages user_query) = (Inr (Some text), s1)"
    and "json_loads rt text = Inr (JArray js)"
    and "map step_fields js = map Some (p1 # p2 # rest)"
    and "client ag s1 (model ag) (step_request [] (fst p1) (snd p1)) = (Inr (Some t1), s2)"
    and "client ag s2 (model ag)
           (step_request (nl @ ''Step 1 result: '' @ t1) (fst p2) (snd p2)) = (Inl e, s3)"
    and "spec_executing (client ag) (model ag) rest 2
           (nl @ ''Step 1 result: '' @ t1 @ nl @ ''Step 2 result: None'') s3 = (cs, ctx, evs, s4)"
    and "client ag s4 (model ag) (compile_request (Some t1 # None # cs) user_query) = (rep, s5)"
  shows "\<exists>st sr w'.
    solve ag rt user_query w =
      Some (Inr (TaskOutcome user_query st sr (of_content (reply_content rep))), w') \<and>
    py_iter (heap w') sr = Inr (PStr t1 # PNone # map of_content cs) \<and>
    length cs = length rest \<and>
    requests (trace w') =
      requests (trace w) @
      [analyze_messages user_query,
       step_request [] (fst p1) (snd p1),
       step_request (nl @ ''Step 1 result: '' @ t1) (fst p2) (snd p2)] @
      map (\<lambda>k. step_request
                 (nl @ ''Step 1 result: '' @ t1 @ nl @ ''Step 2 result: None'' @
                  spec_context 2 (take k cs))
                 (fst (rest ! k)) (snd (rest ! k)))
        [0..<length rest] @
      [compile_request (Some t1 # None # cs) user_query]"
proof -
  have one: "str_nat (Suc 0) = ''1''" and two: "str_nat (Suc (Suc 0)) = ''2''"
    by (simp_all add: str_nat.simps)
  have sp: "spec_executing (client ag) (model ag) (p1 # p2 # rest) 0 [] s1 =
    (Some t1 # None # cs, ctx,
     [Print (nl @ gear @ '' Executing step '' @ str_nat 1 @ '': '' @ fst p1),
      Create (model ag) (step_request [] (fst p1) (snd p1)),
      Print (''  '' @ check_mark @ '' Completed''), Sleep 1,
      Print (nl @ gear @ '' Executing step '' @ str_nat 2 @ '': '' @ fst p2),
      Create (model ag) (step_request (nl @ ''Step 1 result: '' @ t1) (fst p2) (snd p2)),
      Print (''Error calling LLM: '' @ e),
      Print (''  '' @ check_mark @ '' Completed''), Sleep 1] @ evs, s4)"
    using assms(4,5,6)
    by (simp add: reply_content_def reply_report_def spec_record_def result_text_def one two
        numeral_2_eq_2)
  note run = spec_executing_run [OF assms(6)]
  have ne: "p1 # p2 # rest \<noteq> []" by simp
  show ?thesis
    unfolding solve_plan [OF assms(1,2,3) ne sp assms(7)]
    using run py_iter_last [of "snd (alloc_json (JArray js) (heap w))"
        "map of_content (Some t1 # None # cs)"]
    by (simp add: of_content_def spec_record_def result_text_def one two numeral_2_eq_2)
qed

theorem C4_second_step_raises_witness:
  "\<exists>st sr w'.
     solve gpt4 scenario_runtime ''Plan a birthday party''
       (start [Inr (Some cake_text), Inr (Some ''Venue booked''), Inl ''Connection error.'',
               Inr (Some ''Cake ordered''), Inr (Some ''All set'')]) =
       Some (Inr (TaskOutcome ''Plan a birthday party'' st sr (PStr ''All set'')), w') \<and>
     py_iter (heap w') sr = Inr [PStr ''Venue booked'', PNone, PStr ''Cake ordered''] \<and>
     requests (trace w') =
       [analyze_messages ''Plan a birthday party'',
        step_request [] ''Pick a venue'' ''Needed first'',
        step_request (nl @ ''Step 1 result: Venue booked'') ''Send invites'' ''After venue is set'',
        step_request (nl @ ''Step 1 result: Venue booked'' @ nl @ ''Step 2 result: None'')
          ''Order a cake'' ''Last'',
        compile_request [Some ''Venue booked'', None, Some ''Cake ordered'']
          ''Plan a birthday party'']"
  using C4_second_step_raises [of gpt4
      "start [Inr (Some cake_text), Inr (Some ''Venue booked''), Inl ''Connection error.'',
              Inr (Some ''Cake ordered''), Inr (Some ''All set'')]"
      "''Plan a birthday party''" cake_text
      "[Inr (Some ''Venue booked''), Inl ''Connection error.'', Inr (Some ''Cake ordered''),
        Inr (Some ''All set'')]"
      scenario_runtime
      "[JObject [(''description'', JString ''Pick a venue''), (''reasoning'', JString ''Needed first'')],
        JObject [(''description'', JString ''Send invites''),
                 (''reasoning'', JString ''After venue is set'')],
        JObject [(''description'', JString ''Order a cake''), (''reasoning'', JString ''Last'')]]"
      "(''Pick a venue'', ''Needed first'')" "(''Send invites'', ''After venue is set'')"
      "[(''Order a cake'', ''Last'')]"
      "''Venue booked''"
      "[Inl ''Connection error.'', Inr (Some ''Cake ordered''), Inr (Some ''All set'')]"
      "''Connection error.''"
      "[Inr (Some ''Cake ordered''), Inr (Some ''All set'')]"
      "[Some ''Cake ordered'']"
      "nl @ ''Step 1 result: Venue booked'' @ nl @ ''Step 2 result: None'' @ nl @
       ''Step 3 result: Cake ordered''"
      "fst (snd (snd (spec_executing scripted ''openai/gpt-4'' [(''Order a cake'', ''Last'')] 2
         (nl @ ''Step 1 result: Venue booked'' @ nl @ ''Step 2 result: None'')
         [Inr (Some ''Cake ordered''), Inr (Some ''All set'')])))"
      "[Inr (Some ''All set'')]" "Inr (Some ''All set'')" "[]"]
  by (simp add: gpt4_def scripted_def start_def scenario_runtime_def scenario_loads_def
      cake_plan_def cake_text_def party_text_def step_fields_def member_def reply_content_def
      of_content_def spec_record_def result_text_def str_nat.simps)

text \<open>
  C5. For step results \<open>cs\<close> (texts, or \<open>None\<close> for an absent one) and a query,
  \<open>compile_results\<close> sends one request whose user message holds the query and the block
  of the entries \<open>Step k result: \<close> followed by the \<open>k\<close>-th result, for \<open>k\<close> from 1 in
  order, separated by empty lines, and returns what the service answered. The world
  changes by that call alone.
\<close>

theorem C5_compile_results:
  assumes "py_iter (heap w) steps_results = Inr (map of_content cs)"
    and "client ag (remote w) (model ag) (compile_request cs user_query) = (rep, s)"
  shows "compile_results ag rt steps_results user_query w =
      (Inr (case rep of Inl e \<Rightarrow> PNone | Inr None \<Rightarrow> PNone | Inr (Some text) \<Rightarrow> PStr text),
       w\<lparr>remote := s,
         trace := trace w @ Create (model ag) (compile_request cs user_query) # reply_report rep\<rparr>) \<and>
    map content (compile_request cs user_query) =
      [compile_system_prompt,
       ''Original query: '' @ user_query @ nl @ nl @ ''Results from steps:'' @ nl @
       join (nl @ nl)
         (map (\<lambda>k. ''Step '' @ str_nat k @ '' result: '' @ result_text (cs ! (k - 1)))
            [1..<length cs + 1]) @ nl @ nl @
       ''Please provide a comprehensive, unified response to the original query.'']"
proof -
  have "compile_results ag rt steps_results user_query w =
      (Inr (of_content (reply_content rep)),
       w\<lparr>remote := s,
         trace := trace w @ Create (model ag) (compile_request cs user_query) # reply_report rep\<rparr>)"
    using assms by (rule compile_results_contents)
  moreover have "of_content (reply_content rep) =
      (case rep of Inl e \<Rightarrow> PNone | Inr None \<Rightarrow> PNone | Inr (Some text) \<Rightarrow> PStr text)"
    by (simp add: of_content_def reply_content_def split: sum.splits option.splits)
  ultimately have "compile_results ag rt steps_results user_query w =
      (Inr (case rep of Inl e \<Rightarrow> PNone | Inr None \<Rightarrow> PNone | Inr (Some text) \<Rightarrow> PStr text),
       w\<lparr>remote := s,
         trace := trace w @ Create (model ag) (compile_request cs user_query) # reply_report rep\<rparr>)"
    by simp
  moreover have "map content (compile_request cs user_query) =
      [compile_system_prompt,
       ''Original query: '' @ user_query @ nl @ nl @ ''Results from steps:'' @ nl @
       join (nl @ nl)
         (map (\<lambda>k. ''Step '' @ str_nat k @ '' result: '' @ result_text (cs ! (k - 1)))
            [1..<length cs + 1]) @ nl @ nl @
       ''Please provide a comprehensive, unified response to the original query.'']"
    unfolding compile_request_def numbered_entries by simp
  ultimately show ?thesis by (rule conjI)
qed

theorem C5_compile_results_witness:
  "py_iter [PList [PStr ''Venue booked'', PNone]] (PRef 0) =
     Inr (map of_content [Some ''Venue booked'', None]) \<and>
   compile_results gpt4 scenario_runtime (PRef 0) ''Plan a birthday party''
     \<lparr>remote = [Inr (Some ''All set'')], heap = [PList [PStr ''Venue booked'', PNone]], trace = []\<rparr> =
   (Inr (PStr ''All set''),
    \<lparr>remote = [], heap = [PList [PStr ''Venue booked'', PNone]],
     trace = [Create ''openai/gpt-4''
                (compile_request [Some ''Venue booked'', None] ''Plan a birthday party'')]\<rparr>) \<and>
   map content (compile_request [Some ''Venue booked'', None] ''Plan a birthday party'') =
     [compile_system_prompt,
      ''Original query: Plan a birthday party'' @ nl @ nl @ ''Results from steps:'' @ nl @
      ''Step 1 result: Venue booked'' @ nl @ nl @ ''Step 2 result: None'' @ nl @ nl @
      ''Please provide a comprehensive, unified response to the original query.'']"
  using C5_compile_results [of
      "\<lparr>remote = [Inr (Some ''All set'')], heap = [PList [PStr ''Venue booked'', PNone]], trace = []\<rparr>"
      "PRef 0" "[Some ''Venue booked'', None]" gpt4 "''Plan a birthday party''"
      "Inr (Some ''All set'')" "[]" scenario_runtime]
  by (simp add: py_iter_def lookup_def of_content_def gpt4_def scripted_def reply_report_def
      result_text_def upt_rec str_nat.simps)

text \<open>
  C6. For a step with a description \<open>d\<close> and a reasoning \<open>r\<close>, \<open>execute_step\<close> sends one
  request, made of the context, \<open>d\<close> and \<open>r\<close>, and returns what the service answered as
  it is: the text, or \<open>None\<close> for an absent answer and for a call that raised. There is
  one \<open>Create\<close> event: nothing is tried again.
\<close>

theorem C6_execute_step:
  assumes "getitem (heap w) step ''description'' = Inr d"
    and "getitem (heap w) step ''reasoning'' = Inr r"
    and "client ag (remote w) (model ag)
           (step_request context (format_value rt (heap w) d) (format_value rt (heap w) r)) = (rep, s)"
  shows "execute_step ag rt step context w =
    (Inr (case rep of Inl e \<Rightarrow> PNone | Inr None \<Rightarrow> PNone | Inr (Some text) \<Rightarrow> PStr text),
     w\<lparr>remote := s,
       trace := trace w @
         Create (model ag)
           (step_request context (format_value rt (heap w) d) (format_value rt (heap w) r)) #
         reply_report rep\<rparr>)"
proof -
  have "step_messages rt (heap w) step context =
      Inr (step_request context (format_value rt (heap w) d) (format_value rt (heap w) r))"
    using assms(1,2) by (simp add: step_messages_def step_request_def)
  then show ?thesis
    using call_llm_reply [OF assms(3)]
    by (simp add: execute_step_def of_content_def reply_content_def split: sum.splits option.splits)
qed

theorem C6_execute_step_witness:
  "getitem [PDict [(''description'', PStr ''Pick a venue''), (''reasoning'', PStr ''Needed first'')]]
     (PRef 0) ''description'' = Inr (PStr ''Pick a venue'') \<and>
   execute_step gpt4 scenario_runtime (PRef 0) ''''
     \<lparr>remote = [Inr None],
      heap = [PDict [(''description'', PStr ''Pick a venue''), (''reasoning'', PStr ''Needed first'')]],
      trace = []\<rparr> =
   (Inr PNone,
    \<lparr>remote = [],
     heap = [PDict [(''description'', PStr ''Pick a venue''), (''reasoning'', PStr ''Needed first'')]],
     trace = [Create ''openai/gpt-4'' (step_request '''' ''Pick a venue'' ''Needed first'')]\<rparr>)"
  using C6_execute_step [of
      "\<lparr>remote = [Inr None],
        heap = [PDict [(''description'', PStr ''Pick a venue''), (''reasoning'', PStr ''Needed first'')]],
        trace = []\<rparr>"
      "PRef 0" "PStr ''Pick a venue''" "PStr ''Needed first''" gpt4 "''''" scenario_runtime
      "Inr None" "[]"]
  by (simp add: getitem_def lookup_def gpt4_def scripted_def format_value_def reply_report_def)

text \<open>
  C7. For a plan of \<open>n \<ge> 1\<close> steps with text fields, \<open>solve\<close> returns the full outcome,
  and the requests it made to the service are, in this order: the request of the plan,
  one request for each step in the order of the plan, where the request of step \<open>k + 1\<close>
  carries the context made of the results of the steps 1 to \<open>k\<close>, and last one request of
  the compilation, with all the results and the query. The step results are the
  answers to the step requests, in order. A plan of two steps gives four requests, as
  in the birthday party below.
\<close>

theorem C7_sequential:
  assumes "client ag (remote w) (model ag) (analyze_messages user_query) = (Inr (Some text), s1)"
    and "json_loads rt text = Inr (JArray js)"
    and "map step_fields js = map Some ps"
    and "ps \<noteq> []"
    and "spec_executing (client ag) (model ag) ps 0 [] s1 = (cs, ctx, evs, s2)"
    and "client ag s2 (model ag) (compile_request cs user_query) = (rep, s3)"
  shows "\<exists>st sr w'.
    solve ag rt user_query w =
      Some (Inr (TaskOutcome user_query st sr (of_content (reply_content rep))), w') \<and>
    py_iter (heap w') sr = Inr (map of_content cs) \<and>
    length cs = length ps \<and>
    requests (trace w') =
      requests (trace w) @ [analyze_messages user_query] @
      map (\<lambda>k. step_request (spec_context 0 (take k cs)) (fst (ps ! k)) (snd (ps ! k)))
        [0..<length ps] @
      [compile_request cs user_query]"
proof -
  note run = spec_executing_run [OF assms(5)]
  show ?thesis
    unfolding solve_plan [OF assms]
    using run py_iter_last [of "snd (alloc_json (JArray js) (heap w))" "map of_content cs"]
    by simp
qed

theorem C7_sequential_witness:
  "\<exists>st sr w'.
     solve gpt4 scenario_runtime ''Plan a birthday party''
       (start [Inr (Some party_text), Inr (Some ''Venue booked''), Inr (Some ''Invites sent''),
               Inr (Some ''All set'')]) =
       Some (Inr (TaskOutcome ''Plan a birthday party'' st sr (PStr ''All set'')), w') \<and>
     py_iter (heap w') sr = Inr [PStr ''Venue booked'', PStr ''Invites sent''] \<and>
     requests (trace w') =
       [analyze_messages ''Plan a birthday party'',
        step_request [] ''Pick a venue'' ''Needed first'',
        step_request (nl @ ''Step 1 result: Venue booked'') ''Send invites'' ''After venue is set'',
        compile_request [Some ''Venue booked'', Some ''Invites sent''] ''Plan a birthday party'']"
  using C7_sequential [of gpt4
      "start [Inr (Some party_text), Inr (Some ''Venue booked''), Inr (Some ''Invites sent''),
              Inr (Some ''All set'')]"
      "''Plan a birthday party''" party_text
      "[Inr (Some ''Venue booked''), Inr (Some ''Invites sent''), Inr (Some ''All set'')]"
      scenario_runtime
      "[JObject [(''description'', JString ''Pick a venue''), (''reasoning'', JString ''Needed first'')],
        JObject [(''description'', JString ''Send invites''),
                 (''reasoning'', JString ''After venue is set'')]]"
      "[(''Pick a venue'', ''Needed first''), (''Send invites'', ''After venue is set'')]"
      "fst (spec_executing scripted ''openai/gpt-4''
         [(''Pick a venue'', ''Needed first''), (''Send invites'', ''After venue is set'')] 0 []
         [Inr (Some ''Venue booked''), Inr (Some ''Invites sent''), Inr (Some ''All set'')])"
      "fst (snd (spec_executing scripted ''openai/gpt-4''
         [(''Pick a venue'', ''Needed first''), (''Send invites'', ''After venue is set'')] 0 []
         [Inr (Some ''Venue booked''), Inr (Some ''Invites sent''), Inr (Some ''All set'')]))"
      "fst (snd (snd (spec_executing scripted ''openai/gpt-4''
         [(''Pick a venue'', ''Needed first''), (''Send invites'', ''After venue is set'')] 0 []
         [Inr (Some ''Venue booked''), Inr (Some ''Invites sent''), Inr (Some ''All set'')])))"
      "[Inr (Some ''All set'')]" "Inr (Some ''All set'')" "[]"]
  by (simp add: gpt4_def scripted_def start_def scenario_runtime_def scenario_loads_def
      party_plan_def step_fields_def member_def reply_content_def of_content_def
      spec_record_def result_text_def str_nat.simps upt_rec)

text \<open>
  C8. \<open>execute_step\<close> and \<open>compile_results\<close> leave every object of the store as it was,
  whatever the step, the results, the context, the query and the service are: the steps
  and the list of step results passed to them are after the call what they were before.
\<close>

theorem C8_arguments_unchanged:
  "heap (snd (execute_step ag rt step context w)) = heap w \<and>
   heap (snd (compile_results ag rt steps_results user_query w)) = heap w"
  by (simp add: execute_step_heap compile_results_heap)

text \<open>
  C9. When the call made for the plan raises, \<open>_call_llm\<close> returns \<open>None\<close>, \<open>json.loads\<close>
  raises \<open>TypeError\<close>, which the handler of \<open>analyze_task\<close> does not catch: \<open>analyze_task\<close>
  and \<open>solve\<close> end with that exception, with no outcome.
\<close>

theorem C9_planning_call_raises:
  assumes "client ag (remote w) (model ag) (analyze_messages user_query) = (Inl e, s)"
  shows "analyze_task ag rt user_query w =
      (Inl TypeError,
       w\<lparr>remote := s,
         trace := trace w @
           [Create (model ag) (analyze_messages user_query), Print (''Error calling LLM: '' @ e)]\<rparr>) \<and>
    solve ag rt user_query w =
      Some (Inl TypeError,
        w\<lparr>remote := s,
          trace := trace w @
            [Print (thinking_face @ '' Analyzing task: '' @ user_query),
             Create (model ag) (analyze_messages user_query),
             Print (''Error calling LLM: '' @ e)]\<rparr>)"
proof -
  have an: "analyze_task ag rt user_query w' =
      (Inl TypeError,
       w'\<lparr>remote := s,
          trace := trace w' @
           [Create (model ag) (analyze_messages user_query), Print (''Error calling LLM: '' @ e)]\<rparr>)"
    if "remote w' = remote w" for w' :: "'a world"
    using assms that call_llm_reply [of ag w' "analyze_messages user_query" "Inl e" s]
    by (simp add: analyze_task_def of_content_def reply_content_def reply_report_def)
  show ?thesis
    by (simp add: an solve_def print_def)
qed

theorem C9_planning_call_raises_witness:
  "client gpt4 (remote (start [Inl ''timeout''])) (model gpt4)
     (analyze_messages ''Plan a birthday party'') = (Inl ''timeout'', []) \<and>
   analyze_task gpt4 scenario_runtime ''Plan a birthday party'' (start [Inl ''timeout'']) =
     (Inl TypeError,
      \<lparr>remote = [], heap = [],
       trace = [Create ''openai/gpt-4'' (analyze_messages ''Plan a birthday party''),
                Print ''Error calling LLM: timeout'']\<rparr>) \<and>
   solve gpt4 scenario_runtime ''Plan a birthday party'' (start [Inl ''timeout'']) =
     Some (Inl TypeError,
      \<lparr>remote = [], heap = [],
       trace = [Print (thinking_face @ '' Analyzing task: Plan a birthday party''),
                Create ''openai/gpt-4'' (analyze_messages ''Plan a birthday party''),
                Print ''Error calling LLM: timeout'']\<rparr>)"
  using C9_planning_call_raises [of gpt4 "start [Inl ''timeout'']" "''Plan a birthday party''"
      "''timeout''" "[]" scenario_runtime]
  by (simp add: gpt4_def scripted_def start_def)

text \<open>
  C10. \<open>analyze_task\<close> checks nothing of the parsed value: there is a text that is JSON
  and no array of steps for which the first call of \<open>execute_step\<close> fails. When the text
  parses to an array of one object that has a text \<open>description\<close> and no \<open>reasoning\<close>,
  \<open>analyze_task\<close> returns the value as parsed, the value is not empty, the steps are
  listed, and the first call of \<open>execute_step\<close> raises \<open>KeyError\<close> on \<open>reasoning\<close>, with
  which \<open>solve\<close> ends: it does not return the outcome of a failed plan.
\<close>

theorem C10_no_validation:
  assumes "client ag (remote w) (model ag) (analyze_messages user_query) = (Inr (Some text), s1)"
    and "json_loads rt text = Inr (JArray [JObject ms])"
    and "member (JObject ms) ''description'' = Some (JString d)"
    and "member (JObject ms) ''reasoning'' = None"
  shows "analyze_task ag rt user_query w =
      (Inr (fst (alloc_json (JArray [JObject ms]) (heap w))),
       w\<lparr>remote := s1, heap := snd (alloc_json (JArray [JObject ms]) (heap w)),
         trace := trace w @ [Create (model ag) (analyze_messages user_query)]\<rparr>) \<and>
    (\<exists>step w'.
       truthy (heap w') (fst (alloc_json (JArray [JObject ms]) (heap w))) = Inr True \<and>
       py_iter (heap w') (fst (alloc_json (JArray [JObject ms]) (heap w))) = Inr [step] \<and>
       execute_step ag rt step [] w' = (Inl (KeyError ''reasoning''), w') \<and>
       solve ag rt user_query w = Some (Inl (KeyError ''reasoning''), w') \<and>
       trace w' = trace w @
         [Print (thinking_face @ '' Analyzing task: '' @ user_query),
          Create (model ag) (analyze_messages user_query),
          Print (clipboard @ '' Breaking down into 1 steps:''),
          Print (''  1. '' @ d),
          Print (nl @ gear @ '' Executing step 1: '' @ d)])"
proof -
  obtain kvs h1 where ms: "alloc_members ms (heap w) = (kvs, h1)"
    by (cases "alloc_members ms (heap w)")
  let ?D = "PDict (dict_of_pairs kvs)"
  let ?step = "PRef (length h1)"
  let ?st = "PRef (Suc (length h1))"
  let ?H = "h1 @ [?D, PList [?step]]"
  have al: "alloc_json (JArray [JObject ms]) (heap w) = (?st, ?H)"
    using ms by (simp add: alloc_def)
  have d: "map_of (dict_of_pairs kvs) ''description'' = Some (PStr d)"
    using alloc_members_text [OF ms, of "''description''" d] assms(3)
    by (simp add: member_def map_of_dict_of_pairs)
  have r: "map_of (dict_of_pairs kvs) ''reasoning'' = None"
    using alloc_members_absent [OF ms, of "''reasoning''"] assms(4)
    by (simp add: member_def map_of_dict_of_pairs)
  have one: "str_nat (Suc 0) = ''1''" by (simp add: str_nat.simps)
  let ?w0 = "print (thinking_face @ '' Analyzing task: '' @ user_query) w"
  let ?w1 = "?w0\<lparr>remote := s1, heap := ?H,
       trace := trace ?w0 @ [Create (model ag) (analyze_messages user_query)]\<rparr>"
  have an: "analyze_task ag rt user_query ?w0 = (Inr ?st, ?w1)"
    using analyze_task_plan [of ag "?w0" user_query "text" s1 rt "JArray [JObject ms]"]
      assms(1,2) al by simp
  have tr: "truthy (heap ?w1) ?st = Inr True" by (simp add: lookup_def nth_append)
  have pl: "py_len (heap ?w1) ?st = Inr 1" by (simp add: py_len_def lookup_def nth_append)
  let ?w2 = "print (clipboard @ '' Breaking down into '' @ str_nat 1 @ '' steps:'') ?w1"
  let ?w3 = "print (''  '' @ str_nat (0 + 1) @ ''. '' @ d) ?w2"
  have gd: "getitem (heap ?w2) ?step ''description'' = Inr (PStr d)"
    using d by (simp add: getitem_def lookup_def nth_append)
  have ls1: "list_steps rt ?st (0 + 1) ?w3 = (Inr (), ?w3)"
    by (subst list_steps.simps) (simp add: iter_next_def py_iter_def lookup_def nth_append)
  have ls: "list_steps rt ?st 0 ?w2 = (Inr (), ?w3)"
    by (subst list_steps.simps)
      (simp add: iter_next_def py_iter_def lookup_def nth_append gd [simplified] ls1 [simplified]
        format_value_def)
  let ?w4 = "?w3\<lparr>heap := ?H @ [PList []]\<rparr>"
  let ?w5 = "print (nl @ gear @ '' Executing step '' @ str_nat (0 + 1) @ '': '' @ d) ?w4"
  have sm: "step_messages rt (heap ?w5) ?step [] = Inl (KeyError ''reasoning'')"
    using d r by (simp add: step_messages_def getitem_def lookup_def nth_append)
  have ex: "execute_step ag rt ?step [] ?w5 = (Inl (KeyError ''reasoning''), ?w5)"
    using sm by (simp add: execute_step_def)
  have gd4: "getitem (heap ?w4) ?step ''description'' = Inr (PStr d)"
    using d by (simp add: getitem_def lookup_def nth_append)
  have rs: "run_steps ag rt ?st 0 (PRef (length ?H)) [] ?w4 = Some (Inl (KeyError ''reasoning''), ?w5)"
    by (subst run_steps.simps)
      (simp add: iter_next_def py_iter_def lookup_def nth_append gd4 [simplified]
        ex [simplified] format_value_def)
  have sv: "solve ag rt user_query w = Some (Inl (KeyError ''reasoning''), ?w5)"
    unfolding solve_def
    by (simp only: an tr pl ls rs prod.case sum.case bool.case option.case alloc_def heap_print)
      (simp add: ls [simplified] rs [simplified])
  have "analyze_task ag rt user_query w =
      (Inr ?st, w\<lparr>remote := s1, heap := ?H,
         trace := trace w @ [Create (model ag) (analyze_messages user_query)]\<rparr>)"
    using analyze_task_plan [OF assms(1,2)] al by simp
  moreover have "truthy (heap ?w5) ?st = Inr True" by (simp add: lookup_def nth_append)
  moreover have "py_iter (heap ?w5) ?st = Inr [?step]"
    by (simp add: py_iter_def lookup_def nth_append)
  moreover have "trace ?w5 = trace w @
         [Print (thinking_face @ '' Analyzing task: '' @ user_query),
          Create (model ag) (analyze_messages user_query),
          Print (clipboard @ '' Breaking down into 1 steps:''),
          Print (''  1. '' @ d),
          Print (nl @ gear @ '' Executing step 1: '' @ d)]"
    by (simp add: one)
  ultimately show ?thesis using ex sv unfolding al by auto
qed

theorem C10_no_validation_witness:
  "json_loads scenario_runtime venue_only_text =
     Inr (JArray [JObject [(''description'', JString ''Pick a venue'')]]) \<and>
   member (JObject [(''description'', JString ''Pick a venue'')]) ''reasoning'' = None \<and>
   (\<exists>step w'.
      truthy (heap w') (PRef 1) = Inr True \<and>
      py_iter (heap w') (PRef 1) = Inr [step] \<and>
      execute_step gpt4 scenario_runtime step [] w' = (Inl (KeyError ''reasoning''), w') \<and>
      solve gpt4 scenario_runtime ''Plan a birthday party'' (start [Inr (Some venue_only_text)]) =
        Some (Inl (KeyError ''reasoning''), w') \<and>
      trace w' =
        [Print (thinking_face @ '' Analyzing task: Plan a birthday party''),
         Create ''openai/gpt-4'' (analyze_messages ''Plan a birthday party''),
         Print (clipboard @ '' Breaking down into 1 steps:''),
         Print ''  1. Pick a venue'',
         Print (nl @ gear @ '' Executing step 1: Pick a venue'')])"
  using C10_no_validation [of gpt4 "start [Inr (Some venue_only_text)]"
      "''Plan a birthday party''" venue_only_text "[]" scenario_runtime
      "[(''description'', JString ''Pick a venue'')]" "''Pick a venue''"]
  by (simp add: gpt4_def scripted_def start_def scenario_runtime_def scenario_loads_def
      party_text_def cake_text_def object_text_def venue_only_text_def member_def alloc_def
      dict_of_pairs_def dict_setitem_def)

text \<open>
  The run on the parsed object \<open>{"a": 1}\<close> ends earlier: the object is returned and is
  not empty, and \<open>solve\<close> ends with \<open>TypeError\<close> in its own listing of the steps (line
  199: the step is a key of the object, a string). The only request made is the one of
  the plan, and \<open>execute_step\<close> is not called.
\<close>

lemma object_run:
  "solve gpt4 scenario_runtime ''Plan a birthday party'' (start [Inr (Some object_text)]) =
     Some (Inl TypeError, object_end) \<and>
   truthy (heap object_end) (PRef 0) = Inr True \<and>
   list_steps scenario_runtime (PRef 0) 0 object_end = (Inl TypeError, object_end) \<and>
   requests (trace object_end) = [analyze_messages ''Plan a birthday party'']"
proof -
  have ls: "list_steps scenario_runtime (PRef 0) 0 object_end = (Inl TypeError, object_end)"
    by (subst list_steps.simps)
      (simp add: object_end_def iter_next_def py_iter_def lookup_def getitem_def)
  have "solve gpt4 scenario_runtime ''Plan a birthday party'' (start [Inr (Some object_text)]) =
     Some (Inl TypeError, object_end)"
    unfolding solve_def
    by (simp add: analyze_task_def call_llm_def gpt4_def scripted_def start_def
        scenario_runtime_def scenario_loads_def party_text_def cake_text_def object_text_def
        alloc_def dict_of_pairs_def dict_setitem_def lookup_def py_len_def print_def
        str_nat.simps ls [unfolded object_end_def scenario_runtime_def] object_end_def)
  then show ?thesis using ls by (simp add: object_end_def lookup_def)
qed

end
